theory Spec2Isabelle
  imports Complex_Main "HOL-Library.Multiset"
begin

section \<open>Python values used by benchmark.py\<close>

text \<open>
  Exceptions of the source are values. \<open>IOError\<close> stands for \<open>OSError\<close> and its
  subclasses (\<open>FileNotFoundError\<close> of \<open>open\<close>, the bare \<open>raise IOError\<close> of
  \<open>load_sequence\<close>); \<open>RuntimeError\<close> is what a generator raises to its caller
  when a \<open>StopIteration\<close> escapes its body (Python 3.7 and later); \<open>CsvError\<close> is
  \<open>csv.Error\<close>.
\<close>

datatype error = IOError | ValueError | IndexError | RuntimeError | CsvError

text \<open>One pull on a generator: a value and the suspended state, a clean end, or a raise.\<close>

datatype ('a, 's) step = Yield 'a 's | Stop 's | Raise error

subsection \<open>Strings\<close>

text \<open>\<open>s.split(c)\<close> for a one-character separator: always at least one field.\<close>

fun split_on :: "char \<Rightarrow> string \<Rightarrow> string list" where
  "split_on c [] = [[]]"
| "split_on c (x # xs) =
     (if x = c then [] # split_on c xs
      else (case split_on c xs of
              w # ws \<Rightarrow> (x # w) # ws
            | [] \<Rightarrow> [[x]]))"

text \<open>\<open>xs[i]\<close> for a non-negative constant index: \<open>IndexError\<close> out of range.\<close>

definition index :: "'a list \<Rightarrow> nat \<Rightarrow> error + 'a" where
  "index xs i = (if i < length xs then Inr (xs ! i) else Inl IndexError)"

definition is_space :: "char \<Rightarrow> bool" where
  "is_space c = (c \<in> {CHR '' '', CHR 0x09, CHR 0x0A, CHR 0x0B, CHR 0x0C, CHR 0x0D})"

definition strip :: "string \<Rightarrow> string" where
  "strip s = rev (dropWhile is_space (rev (dropWhile is_space s)))"

definition is_digit :: "char \<Rightarrow> bool" where
  "is_digit c = (c \<in> set ''0123456789'')"

definition digit_val :: "char \<Rightarrow> nat" where
  "digit_val c = of_char c - 48"

text \<open>
  The digits of an \<open>int\<close> literal after the first one; a single underscore may stand
  between two digits.
\<close>

fun int_digits :: "nat \<Rightarrow> string \<Rightarrow> nat option" where
  "int_digits acc [] = Some acc"
| "int_digits acc (c # cs) =
     (if c = CHR ''_'' then
        (case cs of
           [] \<Rightarrow> None
         | d # ds \<Rightarrow> if is_digit d then int_digits (10 * acc + digit_val d) ds else None)
      else if is_digit c then int_digits (10 * acc + digit_val c) cs
      else None)"

definition unsigned_literal :: "string \<Rightarrow> nat option" where
  "unsigned_literal u =
     (case u of
        [] \<Rightarrow> None
      | c # cs \<Rightarrow> if is_digit c then int_digits (digit_val c) cs else None)"

text \<open>\<open>int(s)\<close> on a string: surrounding whitespace, a sign, decimal digits; \<open>None\<close> is \<open>ValueError\<close>.\<close>

definition pyint :: "string \<Rightarrow> int option" where
  "pyint s =
     (case strip s of
        [] \<Rightarrow> None
      | c # cs \<Rightarrow>
          if c = CHR ''-'' then map_option (\<lambda>n. - int n) (unsigned_literal cs)
          else if c = CHR ''+'' then map_option int (unsigned_literal cs)
          else map_option int (unsigned_literal (c # cs)))"

text \<open>\<open>str(n)\<close> for an integer.\<close>

fun str_nat :: "nat \<Rightarrow> string" where
  "str_nat n =
     (if n < 10 then [''0123456789'' ! n]
      else str_nat (n div 10) @ [''0123456789'' ! (n mod 10)])"

definition str_int :: "int \<Rightarrow> string" where
  "str_int i = (if i < 0 then CHR ''-'' # str_nat (nat (- i)) else str_nat (nat i))"

text \<open>\<open>s.zfill(w)\<close> on the string of a non-negative number.\<close>

definition zfill :: "nat \<Rightarrow> string \<Rightarrow> string" where
  "zfill w s = replicate (w - length s) CHR ''0'' @ s"

text \<open>\<open>sub in s\<close> for strings.\<close>

fun contains :: "string \<Rightarrow> string \<Rightarrow> bool" where
  "contains [] sub = (sub = [])"
| "contains (x # xs) sub = (take (length sub) (x # xs) = sub \<or> contains xs sub)"

text \<open>
  A text file opened with \<open>open(path, 'r')\<close>: universal newlines turn \<open>\r\n\<close> and a
  lone \<open>\r\<close> into \<open>\n\<close>; iterating the file gives the lines, each with its \<open>\n\<close>.
\<close>

fun universal_newlines :: "string \<Rightarrow> string" where
  "universal_newlines [] = []"
| "universal_newlines [c] = (if c = CHR 0x0D then [CHR 0x0A] else [c])"
| "universal_newlines (c # d # cs) =
     (if c = CHR 0x0D \<and> d = CHR 0x0A then CHR 0x0A # universal_newlines cs
      else if c = CHR 0x0D then CHR 0x0A # universal_newlines (d # cs)
      else c # universal_newlines (d # cs))"

fun lines_of :: "string \<Rightarrow> string list" where
  "lines_of [] = []"
| "lines_of (c # cs) =
     (if c = CHR 0x0A then [c] # lines_of cs
      else (case lines_of cs of
              [] \<Rightarrow> [[c]]
            | l # ls \<Rightarrow> (c # l) # ls))"

definition readlines :: "string \<Rightarrow> string list" where
  "readlines txt = lines_of (universal_newlines txt)"

section \<open>The csv module, default dialect\<close>

text \<open>
  \<open>csv.reader(fid)\<close> is the reader's character automaton for the default dialect
  (delimiter \<open>,\<close>, quote character \<open>"\<close>, doubled quotes, not strict). It is fed the
  lines of the file; after the characters of each line it is fed the end-of-line
  signal, written \<open>None\<close> here.
\<close>

datatype csv_state =
  START_RECORD | START_FIELD | IN_FIELD | IN_QUOTED_FIELD | QUOTE_IN_QUOTED_FIELD | EAT_CRNL

record parser =
  state :: csv_state
  field :: string
  saved :: "string list"

definition parse_reset :: parser where
  "parse_reset = \<lparr>state = START_RECORD, field = [], saved = []\<rparr>"

definition parse_save_field :: "parser \<Rightarrow> parser" where
  "parse_save_field p = p\<lparr>saved := saved p @ [field p], field := []\<rparr>"

definition parse_add_char :: "char \<Rightarrow> parser \<Rightarrow> parser" where
  "parse_add_char c p = p\<lparr>field := field p @ [c]\<rparr>"

definition is_newline :: "char \<Rightarrow> bool" where
  "is_newline c = (c = CHR 0x0A \<or> c = CHR 0x0D)"

definition end_of_line :: "char option \<Rightarrow> parser \<Rightarrow> parser" where
  "end_of_line c p =
     (parse_save_field p)\<lparr>state := (if c = None then START_RECORD else EAT_CRNL)\<rparr>"

definition start_field :: "char option \<Rightarrow> parser \<Rightarrow> parser" where
  "start_field c p =
     (case c of
        None \<Rightarrow> end_of_line c p
      | Some x \<Rightarrow>
          if is_newline x then end_of_line c p
          else if x = CHR 0x22 then p\<lparr>state := IN_QUOTED_FIELD\<rparr>
          else if x = CHR '','' then parse_save_field p
          else (parse_add_char x p)\<lparr>state := IN_FIELD\<rparr>)"

definition parse_process_char :: "parser \<Rightarrow> char option \<Rightarrow> error + parser" where
  "parse_process_char p c =
     (case state p of
        START_RECORD \<Rightarrow>
          (case c of
             None \<Rightarrow> Inr p
           | Some x \<Rightarrow>
               if is_newline x then Inr (p\<lparr>state := EAT_CRNL\<rparr>)
               else Inr (start_field c (p\<lparr>state := START_FIELD\<rparr>)))
      | START_FIELD \<Rightarrow> Inr (start_field c p)
      | IN_FIELD \<Rightarrow>
          (case c of
             None \<Rightarrow> Inr (end_of_line c p)
           | Some x \<Rightarrow>
               if is_newline x then Inr (end_of_line c p)
               else if x = CHR '','' then Inr ((parse_save_field p)\<lparr>state := START_FIELD\<rparr>)
               else Inr (parse_add_char x p))
      | IN_QUOTED_FIELD \<Rightarrow>
          (case c of
             None \<Rightarrow> Inr p
           | Some x \<Rightarrow>
               if x = CHR 0x22 then Inr (p\<lparr>state := QUOTE_IN_QUOTED_FIELD\<rparr>)
               else Inr (parse_add_char x p))
      | QUOTE_IN_QUOTED_FIELD \<Rightarrow>
          (case c of
             None \<Rightarrow> Inr (end_of_line c p)
           | Some x \<Rightarrow>
               if x = CHR 0x22 then Inr ((parse_add_char x p)\<lparr>state := IN_QUOTED_FIELD\<rparr>)
               else if x = CHR '','' then Inr ((parse_save_field p)\<lparr>state := START_FIELD\<rparr>)
               else if is_newline x then Inr (end_of_line c p)
               else Inr ((parse_add_char x p)\<lparr>state := IN_FIELD\<rparr>))
      | EAT_CRNL \<Rightarrow>
          (case c of
             None \<Rightarrow> Inr (p\<lparr>state := START_RECORD\<rparr>)
           | Some x \<Rightarrow> if is_newline x then Inr p else Inl CsvError))"

fun parse_chars :: "parser \<Rightarrow> string \<Rightarrow> error + parser" where
  "parse_chars p [] = parse_process_char p None"
| "parse_chars p (c # cs) =
     (case parse_process_char p (Some c) of
        Inl e \<Rightarrow> Inl e
      | Inr p' \<Rightarrow> parse_chars p' cs)"

text \<open>
  The records of the reader: one is complete when the automaton is back in
  \<open>START_RECORD\<close> after a line; when the lines end inside a record, the pending
  field is saved and the record returned.
\<close>

fun reader_rows :: "parser \<Rightarrow> string list \<Rightarrow> error + string list list" where
  "reader_rows p [] =
     (if field p \<noteq> [] \<or> state p = IN_QUOTED_FIELD
      then Inr [saved (parse_save_field p)] else Inr [])"
| "reader_rows p (l # ls) =
     (case parse_chars p l of
        Inl e \<Rightarrow> Inl e
      | Inr p' \<Rightarrow>
          if state p' = START_RECORD then
            (case reader_rows parse_reset ls of
               Inl e \<Rightarrow> Inl e
             | Inr rows \<Rightarrow> Inr (saved p' # rows))
          else reader_rows p' ls)"

definition csv_reader :: "string list \<Rightarrow> error + string list list" where
  "csv_reader ls = reader_rows parse_reset ls"

text \<open>
  \<open>csv.writer(fid, delimiter=',')\<close> with \<open>writerows\<close>: minimal quoting, quotes
  doubled, each row ended by \<open>\r\n\<close>; a row of one empty field is written as \<open>""\<close>.
\<close>

definition needs_quote :: "string \<Rightarrow> bool" where
  "needs_quote f = (\<exists>c \<in> set f. c = CHR '','' \<or> c = CHR 0x22 \<or> is_newline c)"

definition quote_field :: "string \<Rightarrow> string" where
  "quote_field f =
     (if needs_quote f
      then CHR 0x22 # concat (map (\<lambda>c. if c = CHR 0x22 then [c, c] else [c]) f) @ [CHR 0x22]
      else f)"

fun join :: "string \<Rightarrow> string list \<Rightarrow> string" where
  "join sep [] = []"
| "join sep [x] = x"
| "join sep (x # y # ys) = x @ sep @ join sep (y # ys)"

definition writerow :: "string list \<Rightarrow> string" where
  "writerow r =
     (if r = [[]] then [CHR 0x22, CHR 0x22] else join '','' (map quote_field r))
     @ [CHR 0x0D, CHR 0x0A]"

definition writerows :: "string list list \<Rightarrow> string" where
  "writerows rows = concat (map writerow rows)"

section \<open>The file system\<close>

text \<open>
  What the program sees of the disk: the text files (\<open>None\<close>: \<open>open\<close> raises
  \<open>IOError\<close>), \<open>glob.glob\<close> on a pattern and \<open>cv2.imread\<close> on a path (\<open>None\<close> for
  an image that cannot be read). Writing a file is taken to succeed.
\<close>

record 'img fs =
  files :: "string \<Rightarrow> string option"
  glob :: "string \<Rightarrow> string list"
  imread :: "string \<Rightarrow> 'img option"

section \<open>fix_gt\<close>

text \<open>The sort key \<open>lambda row: int(row[0])\<close>.\<close>

definition row_key :: "string list \<Rightarrow> error + int" where
  "row_key row =
     (case index row 0 of
        Inl e \<Rightarrow> Inl e
      | Inr s \<Rightarrow> (case pyint s of None \<Rightarrow> Inl ValueError | Some k \<Rightarrow> Inr k))"

fun row_keys :: "string list list \<Rightarrow> error + int list" where
  "row_keys [] = Inr []"
| "row_keys (r # rs) =
     (case row_key r of
        Inl e \<Rightarrow> Inl e
      | Inr k \<Rightarrow> (case row_keys rs of Inl e \<Rightarrow> Inl e | Inr ks \<Rightarrow> Inr (k # ks)))"

text \<open>
  \<open>sorted(reader, key=..., reverse=False)\<close>: the rows are read, every key is computed
  once, and the rows are put in ascending key order by a stable sort.
\<close>

definition sorted_rows :: "string list list \<Rightarrow> error + string list list" where
  "sorted_rows rows =
     (case row_keys rows of
        Inl e \<Rightarrow> Inl e
      | Inr ks \<Rightarrow> Inr (map snd (sort_key fst (zip ks rows))))"

definition out_filename :: "string \<Rightarrow> string" where
  "out_filename filename = take (length filename - 4) filename @ ''_corrected.txt''"

definition fix_gt_text :: "string \<Rightarrow> error + string" where
  "fix_gt_text txt =
     (case csv_reader (readlines txt) of
        Inl e \<Rightarrow> Inl e
      | Inr rows \<Rightarrow>
          (case sorted_rows rows of
             Inl e \<Rightarrow> Inl e
           | Inr sorted_list \<Rightarrow> Inr (writerows sorted_list)))"

definition fix_gt :: "string \<Rightarrow> 'img fs \<Rightarrow> error + 'img fs" where
  "fix_gt filename d =
     (case files d filename of
        None \<Rightarrow> Inl IOError
      | Some txt \<Rightarrow>
          (case fix_gt_text txt of
             Inl e \<Rightarrow> Inl e
           | Inr out \<Rightarrow> Inr (d\<lparr>files := (files d)(out_filename filename \<mapsto> out)\<rparr>)))"

section \<open>SequenceLoader\<close>

text \<open>
  The three list objects a loader works with: the list \<open>__init__\<close> stores in
  \<open>self.midpoints\<close>, and the locals \<open>boxes\<close> and \<open>midpoints\<close> of \<open>load_gt\<close>.
  A yielded group and the attribute \<open>self.midpoints\<close> are references to them;
  \<open>heap\<close> holds what each list contains.
\<close>

datatype lref = Init_list | Boxes_list | Midpoints_list

text \<open>
  Where the \<open>load_gt\<close> generator stands: created and not yet run; file open, at the
  head of the loop (passed within the first pull); suspended at the \<open>yield\<close> in the
  loop, holding the \<open>box\<close> of the line just split; suspended at the last \<open>yield\<close>;
  finished.
\<close>

datatype pc = Created | Opened | Suspended "string list" | Flushed | Exhausted

text \<open>
  A \<open>SequenceLoader\<close> object with its lists and its \<open>load_gt\<close> generator (\<open>pc\<close> and
  the unread lines \<open>fid\<close>). The accumulator is the log of the \<open>update\<close> calls it received.
  The attribute \<open>frame\<close> is set by \<open>__iter__\<close> before anything reads it.
\<close>

record 'f SequenceLoader =
  filepath :: string
  name :: string
  imDir :: string
  frameRate :: string
  seqLength :: string
  imWidth :: string
  imHeight :: string
  imExt :: string
  accumulator :: "(nat list \<times> nat list \<times> 'f list list) list"
  midpoints :: lref
  choose_midpoints :: bool
  frame :: int
  heap :: "lref \<Rightarrow> 'f list list"
  pc :: pc
  fid :: "string list"

text \<open>\<open>info[i].split('=')[1][:-1]\<close>\<close>

definition info_value :: "string list \<Rightarrow> nat \<Rightarrow> error + string" where
  "info_value info i =
     (case index info i of
        Inl e \<Rightarrow> Inl e
      | Inr l \<Rightarrow> (case index (split_on CHR ''='' l) 1 of Inl e \<Rightarrow> Inl e | Inr v \<Rightarrow> Inr (butlast v)))"

fun info_values :: "string list \<Rightarrow> nat list \<Rightarrow> error + string list" where
  "info_values info [] = Inr []"
| "info_values info (i # is) =
     (case info_value info i of
        Inl e \<Rightarrow> Inl e
      | Inr v \<Rightarrow> (case info_values info is of Inl e \<Rightarrow> Inl e | Inr vs \<Rightarrow> Inr (v # vs)))"

definition SequenceLoader_init ::
  "'img fs \<Rightarrow> string \<Rightarrow> bool \<Rightarrow> error + 'f SequenceLoader" where
  "SequenceLoader_init d path mp =
     (case files d (path @ ''/seqinfo.ini'') of
        None \<Rightarrow> Inl IOError
      | Some txt \<Rightarrow>
          (case info_values (readlines txt) [1, 2, 3, 4, 5, 6, 7] of
             Inl e \<Rightarrow> Inl e
           | Inr v \<Rightarrow>
               Inr \<lparr>filepath = path, name = v ! 0, imDir = v ! 1, frameRate = v ! 2,
                    seqLength = v ! 3, imWidth = v ! 4, imHeight = v ! 5, imExt = v ! 6,
                    accumulator = [], midpoints = Init_list, choose_midpoints = mp,
                    frame = 0, heap = (\<lambda>_. []), pc = Exhausted, fid = []\<rparr>))"

subsection \<open>load_gt\<close>

text \<open>\<open>[float(box[x]) for x in xs]\<close>, with \<open>float\<close> on a string as a parameter.\<close>

fun floats :: "(string \<Rightarrow> 'f option) \<Rightarrow> string list \<Rightarrow> nat list \<Rightarrow> error + 'f list" where
  "floats pf box [] = Inr []"
| "floats pf box (x # xs) =
     (case index box x of
        Inl e \<Rightarrow> Inl e
      | Inr t \<Rightarrow>
          (case pf t of
             None \<Rightarrow> Inl ValueError
           | Some v \<Rightarrow> (case floats pf box xs of Inl e \<Rightarrow> Inl e | Inr vs \<Rightarrow> Inr (v # vs))))"

text \<open>The two \<open>append\<close> statements that end the loop body.\<close>

definition append_box ::
  "(string \<Rightarrow> 'f option) \<Rightarrow> string list \<Rightarrow> ('f::{inverse,numeral}) SequenceLoader
     \<Rightarrow> error + 'f SequenceLoader" where
  "append_box pf box s =
     (case floats pf box [2, 3, 4, 5] of
        Inl e \<Rightarrow> Inl e
      | Inr b \<Rightarrow>
          (case floats pf box [2, 4, 3, 5] of
             Inl e \<Rightarrow> Inl e
           | Inr m \<Rightarrow>
               Inr (s\<lparr>heap := (heap s)
                      (Boxes_list := heap s Boxes_list @ [b],
                       Midpoints_list := heap s Midpoints_list
                          @ [[m ! 0 + m ! 1 / 2, m ! 2 + m ! 3 / 2]])\<rparr>)))"

text \<open>The three \<open>del\<close> statements after the \<open>yield\<close> in the loop.\<close>

definition clear_lists :: "'f SequenceLoader \<Rightarrow> 'f SequenceLoader" where
  "clear_lists s =
     s\<lparr>heap := ((heap s)(Boxes_list := [], Midpoints_list := []))(midpoints s := [])\<rparr>"

text \<open>The \<open>for line in fid\<close> loop, from the head of the loop to the next \<open>yield\<close>.\<close>

fun for_lines ::
  "(string \<Rightarrow> 'f option) \<Rightarrow> ('f::{inverse,numeral}) SequenceLoader \<Rightarrow> string list
     \<Rightarrow> (lref, 'f SequenceLoader) step" where
  "for_lines pf s [] = Yield Boxes_list (s\<lparr>pc := Flushed, fid := []\<rparr>)"
| "for_lines pf s (line # ls) =
     (let box = split_on CHR '','' line in
      case index box 0 of
        Inl e \<Rightarrow> Raise e
      | Inr t \<Rightarrow>
          (case pyint t of
             None \<Rightarrow> Raise ValueError
           | Some n \<Rightarrow>
               if n \<noteq> frame s then
                 Yield (if choose_midpoints s then Midpoints_list else Boxes_list)
                   (s\<lparr>frame := frame s + 1, midpoints := Midpoints_list,
                      pc := Suspended box, fid := ls\<rparr>)
               else
                 (case append_box pf box s of
                    Inl e \<Rightarrow> Raise e
                  | Inr s' \<Rightarrow> for_lines pf s' ls)))"

definition with_fs :: "'d \<Rightarrow> ('a, 's) step \<Rightarrow> ('a, 'd \<times> 's) step" where
  "with_fs d r = (case r of Yield a s \<Rightarrow> Yield a (d, s) | Stop s \<Rightarrow> Stop (d, s) | Raise e \<Rightarrow> Raise e)"

text \<open>The file \<open>load_gt\<close> reads, after \<open>fix_gt\<close> for a training sequence.\<close>

definition open_gt :: "'img fs \<Rightarrow> 'f SequenceLoader \<Rightarrow> error + ('img fs \<times> string)" where
  "open_gt d s =
     (if contains (filepath s) ''train'' then
        (case fix_gt (filepath s @ ''/gt/gt.txt'') d of
           Inl e \<Rightarrow> Inl e
         | Inr d' \<Rightarrow>
             (case files d' (filepath s @ ''/gt/gt_corrected.txt'') of
                None \<Rightarrow> Inl IOError
              | Some txt \<Rightarrow> Inr (d', txt)))
      else
        (case files d (filepath s @ ''/det/det.txt'') of
           None \<Rightarrow> Inl IOError
         | Some txt \<Rightarrow> Inr (d, txt)))"

text \<open>\<open>next\<close> on the \<open>load_gt\<close> generator.\<close>

definition load_gt_next ::
  "(string \<Rightarrow> 'f option) \<Rightarrow> 'img fs \<times> ('f::{inverse,numeral}) SequenceLoader
     \<Rightarrow> (lref, 'img fs \<times> 'f SequenceLoader) step" where
  "load_gt_next pf w =
     (case w of (d, s) \<Rightarrow>
        (case pc s of
           Created \<Rightarrow>
             (case open_gt d s of
                Inl e \<Rightarrow> Raise e
              | Inr (d', txt) \<Rightarrow>
                  with_fs d'
                    (for_lines pf
                       (s\<lparr>heap := (heap s)(Boxes_list := [], Midpoints_list := [])\<rparr>)
                       (readlines txt)))
         | Opened \<Rightarrow> with_fs d (for_lines pf s (fid s))
         | Suspended box \<Rightarrow>
             (case append_box pf box (clear_lists s) of
                Inl e \<Rightarrow> Raise e
              | Inr s' \<Rightarrow> with_fs d (for_lines pf s' (fid s)))
         | Flushed \<Rightarrow> Stop (d, s\<lparr>pc := Exhausted\<rparr>)
         | Exhausted \<Rightarrow> Stop (d, s)))"

text \<open>
  All the groups of a \<open>load_gt\<close> generator pulled to its end, each as the list reads
  when it is yielded, and the exception that ended the run, if any.
\<close>

definition gen_rank :: "'f SequenceLoader \<Rightarrow> nat" where
  "gen_rank s =
     (case pc s of Created \<Rightarrow> 3 | Opened \<Rightarrow> 2 | Suspended _ \<Rightarrow> 2 | Flushed \<Rightarrow> 1 | Exhausted \<Rightarrow> 0)"

lemma for_lines_progress:
  "for_lines pf s ls = Yield r s' \<Longrightarrow>
     pc s' = Flushed \<or> ((\<exists>b. pc s' = Suspended b) \<and> length (fid s') < length ls)"
proof (induction ls arbitrary: s)
  case Nil
  then show ?case by auto
next
  case (Cons l ls)
  then show ?case
    by (fastforce simp: Let_def split: sum.splits option.splits if_splits)
qed

lemma load_gt_next_decreases:
  assumes "load_gt_next pf (d, s) = Yield r (d', s')"
  shows "gen_rank s' < gen_rank s \<or> (gen_rank s' = gen_rank s \<and> length (fid s') < length (fid s))"
proof (cases "pc s")
  case Created
  with assms obtain s0 ls where "for_lines pf s0 ls = Yield r s'"
    by (auto simp: load_gt_next_def with_fs_def split: sum.splits step.splits prod.splits)
  from for_lines_progress[OF this] Created show ?thesis
    by (auto simp: gen_rank_def)
next
  case Opened
  with assms have "for_lines pf s (fid s) = Yield r s'"
    by (auto simp: load_gt_next_def with_fs_def split: step.splits)
  from for_lines_progress[OF this] Opened show ?thesis
    by (auto simp: gen_rank_def)
next
  case (Suspended box)
  with assms obtain s1 where "for_lines pf s1 (fid s) = Yield r s'"
    by (auto simp: load_gt_next_def with_fs_def split: sum.splits step.splits)
  from for_lines_progress[OF this] Suspended show ?thesis
    by (auto simp: gen_rank_def)
next
  case Flushed
  with assms show ?thesis by (simp add: load_gt_next_def)
next
  case Exhausted
  with assms show ?thesis by (simp add: load_gt_next_def)
qed

function load_gt_groups ::
  "(string \<Rightarrow> 'f option) \<Rightarrow> 'img fs \<times> ('f::{inverse,numeral}) SequenceLoader
     \<Rightarrow> 'f list list list \<times> error option" where
  "load_gt_groups pf w =
     (case load_gt_next pf w of
        Yield r w' \<Rightarrow>
          (case load_gt_groups pf w' of (gs, e) \<Rightarrow> (heap (snd w') r # gs, e))
      | Stop w' \<Rightarrow> ([], None)
      | Raise e \<Rightarrow> ([], Some e))"
  by pat_completeness auto
termination
proof (relation "measures [\<lambda>(pf, d, s). gen_rank s, \<lambda>(pf, d, s). length (fid s)]")
  show "wf (measures [\<lambda>(pf, d, s). gen_rank s, \<lambda>(pf, d, s). length (fid s)])"
    by simp
next
  fix pf :: "string \<Rightarrow> ('f::{inverse,numeral}) option"
    and w :: "'img fs \<times> 'f SequenceLoader" and r w'
  assume "load_gt_next pf w = Yield r w'"
  then have "load_gt_next pf (fst w, snd w) = Yield r (fst w', snd w')" by simp
  from load_gt_next_decreases[OF this]
  show "((pf, w'), (pf, w)) \<in> measures [\<lambda>(pf, d, s). gen_rank s, \<lambda>(pf, d, s). length (fid s)]"
    by (cases w; cases w') auto
qed

declare load_gt_groups.simps [simp del]

text \<open>
  The record a line of the annotation file denotes, read with the expressions of
  \<open>load_gt\<close>: the frame index \<open>int(box[0])\<close>, the box and the midpoint.
\<close>

definition parse_line ::
  "(string \<Rightarrow> 'f option) \<Rightarrow> string \<Rightarrow> (int \<times> ('f::{inverse,numeral}) list \<times> 'f list) option" where
  "parse_line pf line =
     (let box = split_on CHR '','' line in
      case index box 0 of
        Inl e \<Rightarrow> None
      | Inr t \<Rightarrow>
          (case pyint t of
             None \<Rightarrow> None
           | Some n \<Rightarrow>
               (case floats pf box [2, 3, 4, 5] of
                  Inl e \<Rightarrow> None
                | Inr b \<Rightarrow>
                    (case floats pf box [2, 4, 3, 5] of
                       Inl e \<Rightarrow> None
                     | Inr m \<Rightarrow> Some (n, b, [m ! 0 + m ! 1 / 2, m ! 2 + m ! 3 / 2])))))"

text \<open>An entry of a group is the box or the midpoint of a record.\<close>

definition is_entry_of :: "'a \<Rightarrow> int \<times> 'a \<times> 'a \<Rightarrow> bool" where
  "is_entry_of x r = (x = fst (snd r) \<or> x = snd (snd r))"

text \<open>
  The groups of a whole run as a function of the records, the frame counter and the
  two buffers; \<open>groups_from\<close> is the run of the generator from the head of the loop.
  Both serve the proofs below.
\<close>

fun loop_groups ::
  "bool \<Rightarrow> int \<Rightarrow> 'a list \<Rightarrow> 'a list \<Rightarrow> (int \<times> 'a \<times> 'a) list \<Rightarrow> 'a list list" where
  "loop_groups ch c bs ms [] = [bs]"
| "loop_groups ch c bs ms ((n, b, m) # rs) =
     (if n \<noteq> c then (if ch then ms else bs) # loop_groups ch (c + 1) [b] [m] rs
      else loop_groups ch c (bs @ [b]) (ms @ [m]) rs)"

definition groups_from ::
  "(string \<Rightarrow> 'f option) \<Rightarrow> 'img fs \<Rightarrow> ('f::{inverse,numeral}) SequenceLoader \<Rightarrow> string list
     \<Rightarrow> 'f list list list \<times> error option" where
  "groups_from pf d s ls =
     (case with_fs d (for_lines pf s ls) of
        Yield r w' \<Rightarrow> (case load_gt_groups pf w' of (gs, e) \<Rightarrow> (heap (snd w') r # gs, e))
      | Stop w' \<Rightarrow> ([], None)
      | Raise e \<Rightarrow> ([], Some e))"

text \<open>
  The entries the two \<open>append\<close> statements compute from a split line, the entry a
  list holds for it, and its frame index \<open>int(box[0])\<close>.
\<close>

definition box_of :: "(string \<Rightarrow> 'f option) \<Rightarrow> string list \<Rightarrow> error + 'f list" where
  "box_of pf box = floats pf box [2, 3, 4, 5]"

definition midpoint_of ::
  "(string \<Rightarrow> 'f option) \<Rightarrow> string list \<Rightarrow> error + ('f::{inverse,numeral}) list" where
  "midpoint_of pf box =
     (case floats pf box [2, 4, 3, 5] of
        Inl e \<Rightarrow> Inl e
      | Inr m \<Rightarrow> Inr [m ! 0 + m ! 1 / 2, m ! 2 + m ! 3 / 2])"

definition entry_of ::
  "(string \<Rightarrow> 'f option) \<Rightarrow> lref \<Rightarrow> string list \<Rightarrow> error + ('f::{inverse,numeral}) list" where
  "entry_of pf r box = (if r = Boxes_list then box_of pf box else midpoint_of pf box)"

definition frame_index :: "string list \<Rightarrow> int option" where
  "frame_index box = (case index box 0 of Inl e \<Rightarrow> None | Inr t \<Rightarrow> pyint t)"

text \<open>
  The split lines a resumed generator appends between two yields, read off the state
  \<open>s1\<close> it was suspended in and the state \<open>s2\<close> of the next yield: the \<open>box\<close> it held
  at the first yield, then the lines it took from the file before the line that caused
  the second yield.
\<close>

definition pending :: "pc \<Rightarrow> string list list" where
  "pending c = (case c of Suspended box \<Rightarrow> [box] | _ \<Rightarrow> [])"

definition read_between :: "'f SequenceLoader \<Rightarrow> 'f SequenceLoader \<Rightarrow> string list list" where
  "read_between s1 s2 =
     pending (pc s1)
     @ map (split_on CHR '','')
         (take (length (fid s1) - length (fid s2) - length (pending (pc s2))) (fid s1))"

subsection \<open>SequenceLoader.__iter__\<close>

text \<open>
  Where the \<open>__iter__\<close> generator of a loader stands: not yet run, or in the loop
  \<open>for frame in range(1, int(self.seqLength) + 1)\<close> about to try \<open>frame\<close> with the
  upper end of the range, or finished.
\<close>

datatype iter_pc = Iter_created | Iter_loop int int | Iter_done

definition img_filename :: "'f SequenceLoader \<Rightarrow> int \<Rightarrow> string" where
  "img_filename s i = filepath s @ ''/'' @ imDir s @ ''/'' @ zfill 6 (str_int i) @ imExt s"

text \<open>
  One turn of the loop. \<open>next(generator)\<close> on an exhausted \<open>load_gt\<close> generator
  raises \<open>StopIteration\<close> inside the body of \<open>__iter__\<close>, itself a generator, and
  nothing there catches it: the caller of \<open>__iter__\<close> receives a \<open>RuntimeError\<close>.
\<close>

definition iter_body ::
  "(string \<Rightarrow> 'f option) \<Rightarrow> int \<Rightarrow> int \<Rightarrow> 'img fs \<times> ('f::{inverse,numeral}) SequenceLoader
     \<Rightarrow> ('img \<times> lref, iter_pc \<times> 'img fs \<times> 'f SequenceLoader) step" where
  "iter_body pf i n w =
     (case w of (d, s) \<Rightarrow>
        if n < i then Stop (Iter_done, d, s)
        else
          (case imread d (img_filename s i) of
             None \<Rightarrow> Stop (Iter_done, d, s)
           | Some img \<Rightarrow>
               (case load_gt_next pf (d, s) of
                  Yield r w' \<Rightarrow> Yield (img, r) (Iter_loop (i + 1) n, w')
                | Stop w' \<Rightarrow> Raise RuntimeError
                | Raise e \<Rightarrow> Raise e)))"

text \<open>\<open>next\<close> on the generator \<open>__iter__\<close> returns.\<close>

definition iter_next ::
  "(string \<Rightarrow> 'f option) \<Rightarrow> iter_pc \<times> 'img fs \<times> ('f::{inverse,numeral}) SequenceLoader
     \<Rightarrow> ('img \<times> lref, iter_pc \<times> 'img fs \<times> 'f SequenceLoader) step" where
  "iter_next pf st =
     (case st of (c, d, s) \<Rightarrow>
        (case c of
           Iter_created \<Rightarrow>
             (case pyint (seqLength s) of
                None \<Rightarrow> Raise ValueError
              | Some n \<Rightarrow> iter_body pf 1 n (d, s\<lparr>pc := Created, frame := 1\<rparr>))
         | Iter_loop i n \<Rightarrow> iter_body pf i n (d, s)
         | Iter_done \<Rightarrow> Stop (Iter_done, d, s)))"

definition iter_rank :: "iter_pc \<Rightarrow> nat" where
  "iter_rank c = (case c of Iter_created \<Rightarrow> 2 | Iter_loop i n \<Rightarrow> 1 | Iter_done \<Rightarrow> 0)"

definition iter_left :: "iter_pc \<Rightarrow> nat" where
  "iter_left c = (case c of Iter_loop i n \<Rightarrow> nat (n + 1 - i) | _ \<Rightarrow> 0)"

lemma iter_next_decreases:
  assumes "iter_next pf (c, w) = Yield a (c', w')"
  shows "iter_rank c' < iter_rank c \<or> (iter_rank c' = iter_rank c \<and> iter_left c' < iter_left c)"
  using assms
  by (cases c; cases w)
     (auto simp: iter_next_def iter_body_def iter_rank_def iter_left_def
           split: option.splits step.splits if_splits)

text \<open>
  The sequence iterated to its end: the pairs of image and group, each group as the
  list reads when the pair is yielded, and the exception that ended the iteration, if any.
\<close>

function iter_pairs ::
  "(string \<Rightarrow> 'f option) \<Rightarrow> iter_pc \<times> 'img fs \<times> ('f::{inverse,numeral}) SequenceLoader
     \<Rightarrow> ('img \<times> 'f list list) list \<times> error option" where
  "iter_pairs pf st =
     (case iter_next pf st of
        Yield a st' \<Rightarrow>
          (case iter_pairs pf st' of
             (ps, e) \<Rightarrow> ((fst a, heap (snd (snd st')) (snd a)) # ps, e))
      | Stop st' \<Rightarrow> ([], None)
      | Raise e \<Rightarrow> ([], Some e))"
  by pat_completeness auto
termination
proof (relation "measures [\<lambda>(pf, c, w). iter_rank c, \<lambda>(pf, c, w). iter_left c]")
  show "wf (measures [\<lambda>(pf, c, w). iter_rank c, \<lambda>(pf, c, w). iter_left c])"
    by simp
next
  fix pf :: "string \<Rightarrow> ('f::{inverse,numeral}) option"
    and st :: "iter_pc \<times> 'img fs \<times> 'f SequenceLoader" and a st'
  assume "iter_next pf st = Yield a st'"
  then have "iter_next pf (fst st, snd st) = Yield a (fst st', snd st')" by simp
  from iter_next_decreases[OF this]
  show "((pf, st'), (pf, st)) \<in> measures [\<lambda>(pf, c, w). iter_rank c, \<lambda>(pf, c, w). iter_left c]"
    by (cases st; cases st') auto
qed

declare iter_pairs.simps [simp del]

text \<open>The first \<open>k\<close> values a generator yields, each with the state it is left in.\<close>

fun pulls :: "nat \<Rightarrow> ('s \<Rightarrow> ('a, 's) step) \<Rightarrow> 's \<Rightarrow> ('a \<times> 's) list" where
  "pulls 0 nxt st = []"
| "pulls (Suc k) nxt st =
     (case nxt st of
        Yield a st' \<Rightarrow> (a, st') # pulls k nxt st'
      | Stop st' \<Rightarrow> []
      | Raise e \<Rightarrow> [])"

subsection \<open>update_metrics\<close>




section \<open>DataLoader\<close>

record DataLoader =
  root :: string
  midpoints_flag :: bool
  sequence :: int

text \<open>
  The fields \<open>root\<close> and \<open>midpoints_flag\<close> are the attributes \<open>filepath\<close> and
  \<open>choose_midpoints\<close> of the \<open>DataLoader\<close>, named apart from those of the
  \<open>SequenceLoader\<close>.
\<close>

text \<open>The glob pattern \<open>load_sequence\<close> builds for a sequence number.\<close>

definition sequence_filepath :: "DataLoader \<Rightarrow> int \<Rightarrow> string" where
  "sequence_filepath dl sequence_number =
     (let sequence_string =
            (if length (str_int sequence_number) = 1 then ''0'' @ str_int sequence_number
             else str_int sequence_number)
      in root dl @ ''*/MOT16-'' @ sequence_string)"

definition load_sequence :: "'img fs \<Rightarrow> DataLoader \<Rightarrow> int \<Rightarrow> error + 'f SequenceLoader" where
  "load_sequence d dl sequence_number =
     (let data_path = concat (glob d (sequence_filepath dl sequence_number))
      in if length data_path = 0 then Inl IOError
         else SequenceLoader_init d data_path (midpoints_flag dl))"

text \<open>
  Where the \<open>__iter__\<close> generator of the \<open>DataLoader\<close> stands, and \<open>next\<close> on it: the
  \<open>try\<close> block loads the next sequence, and \<open>except IOError\<close> ends the loop.
\<close>

datatype dl_pc = DL_created | DL_loop | DL_done

definition dl_try ::
  "'img fs \<Rightarrow> DataLoader \<Rightarrow> ('f SequenceLoader, dl_pc \<times> DataLoader) step" where
  "dl_try d dl =
     (case load_sequence d dl (sequence dl) of
        Inr current_sequence \<Rightarrow>
          Yield current_sequence (DL_loop, dl\<lparr>sequence := sequence dl + 1\<rparr>)
      | Inl e \<Rightarrow> if e = IOError then Stop (DL_done, dl) else Raise e)"

definition dl_next ::
  "'img fs \<Rightarrow> dl_pc \<times> DataLoader \<Rightarrow> ('f SequenceLoader, dl_pc \<times> DataLoader) step" where
  "dl_next d st =
     (case st of (c, dl) \<Rightarrow>
        (case c of
           DL_created \<Rightarrow> dl_try d (dl\<lparr>sequence := 1\<rparr>)
         | DL_loop \<Rightarrow> dl_try d dl
         | DL_done \<Rightarrow> Stop (DL_done, dl)))"

text \<open>
  The loaders a \<open>for sequence in loader\<close> loop receives, with the exception that ended
  it, if any. The loop may go on for ever, so it runs on fuel: \<open>None\<close> when the fuel
  does not reach the end.
\<close>

fun dl_sequences ::
  "nat \<Rightarrow> 'img fs \<Rightarrow> dl_pc \<times> DataLoader \<Rightarrow> ('f SequenceLoader list \<times> error option) option" where
  "dl_sequences 0 d st = None"
| "dl_sequences (Suc k) d st =
     (case dl_next d st of
        Yield sl st' \<Rightarrow>
          (case dl_sequences k d st' of
             None \<Rightarrow> None
           | Some (sls, e) \<Rightarrow> Some (sl # sls, e))
      | Stop st' \<Rightarrow> Some ([], None)
      | Raise e \<Rightarrow> Some ([], Some e))"

section \<open>Data for the examples\<close>

text \<open>
  \<open>float\<close> is a parameter of the model. The examples use integer literals only, on
  which \<open>float\<close> agrees with \<open>int\<close>; values are rationals there.
\<close>

definition int_float :: "string \<Rightarrow> rat option" where
  "int_float t = map_option of_int (pyint t)"

definition nl :: string where
  "nl = [CHR 0x0A]"

text \<open>A manifest that declares five frames, and the loader \<open>__init__\<close> builds from it.\<close>

definition seqinfo5 :: string where
  "seqinfo5 =
     ''[Sequence]'' @ nl @ ''name=MOT16-02'' @ nl @ ''imDir=img1'' @ nl @ ''frameRate=30'' @ nl
     @ ''seqLength=5'' @ nl @ ''imWidth=1920'' @ nl @ ''imHeight=1080'' @ nl
     @ ''imExt=.jpg'' @ nl"

definition loader5 :: "string \<Rightarrow> bool \<Rightarrow> rat SequenceLoader" where
  "loader5 path mp =
     \<lparr>filepath = path, name = ''MOT16-02'', imDir = ''img1'', frameRate = ''30'',
      seqLength = ''5'', imWidth = ''1920'', imHeight = ''1080'', imExt = ''.jpg'',
      accumulator = [], midpoints = Init_list, choose_midpoints = mp,
      frame = 0, heap = (\<lambda>_. []), pc = Exhausted, fid = []\<rparr>"

definition data_loader :: DataLoader where
  "data_loader = \<lparr>root = ''./data/'', midpoints_flag = True, sequence = 0\<rparr>"

text \<open>A root with the sequence directories 1, 2 and 4.\<close>

definition gap_fs :: "nat fs" where
  "gap_fs =
     \<lparr>files = (\<lambda>p. if p \<in> {''./data/test/MOT16-01/seqinfo.ini'',
                              ''./data/test/MOT16-02/seqinfo.ini'',
                              ''./data/test/MOT16-04/seqinfo.ini''}
                    then Some seqinfo5 else None),
      glob = (\<lambda>p. if p = ''./data/*/MOT16-01'' then [''./data/test/MOT16-01'']
                   else if p = ''./data/*/MOT16-02'' then [''./data/test/MOT16-02'']
                   else if p = ''./data/*/MOT16-04'' then [''./data/test/MOT16-04'']
                   else []),
      imread = (\<lambda>p. None)\<rparr>"

text \<open>A root where the directory of sequence 1 is found and holds no manifest.\<close>

definition no_manifest_fs :: "nat fs" where
  "no_manifest_fs =
     \<lparr>files = (\<lambda>p. None),
      glob = (\<lambda>p. if p = ''./data/*/MOT16-01'' then [''./data/test/MOT16-01''] else []),
      imread = (\<lambda>p. None)\<rparr>"

text \<open>
  A root where the directories of the sequences 1 and 2 are found and only the first
  holds a manifest.
\<close>

definition second_manifest_missing_fs :: "nat fs" where
  "second_manifest_missing_fs =
     \<lparr>files = (\<lambda>p. if p = ''./data/test/MOT16-01/seqinfo.ini'' then Some seqinfo5 else None),
      glob = (\<lambda>p. if p = ''./data/*/MOT16-01'' then [''./data/test/MOT16-01'']
                   else if p = ''./data/*/MOT16-02'' then [''./data/test/MOT16-02'']
                   else []),
      imread = (\<lambda>p. None)\<rparr>"

text \<open>
  A test sequence: its detection file holds \<open>txt\<close>, \<open>imgs\<close> are its images. The
  loader of the sequence is \<open>loader5 ''./data/test/MOT16-01''\<close>.
\<close>

definition det_fs :: "string \<Rightarrow> (string \<Rightarrow> nat option) \<Rightarrow> nat fs" where
  "det_fs txt imgs =
     \<lparr>files = (\<lambda>p. if p = ''./data/test/MOT16-01/det/det.txt'' then Some txt else None),
      glob = (\<lambda>p. []),
      imread = imgs\<rparr>"

definition three_frames :: string where
  "three_frames = ''1,1,10,20,30,40'' @ nl @ ''2,1,50,60,70,80'' @ nl @ ''3,1,0,0,2,2'' @ nl"

text \<open>The loader of that sequence, as \<open>__iter__\<close> starts its \<open>load_gt\<close> generator.\<close>

definition det_loader :: "bool \<Rightarrow> rat SequenceLoader" where
  "det_loader mp = (loader5 ''./data/test/MOT16-01'' mp)\<lparr>pc := Created, frame := 1\<rparr>"

definition three_records :: "(int \<times> rat list \<times> rat list) list" where
  "three_records =
     [(1, [10, 20, 30, 40], [25, 40]), (2, [50, 60, 70, 80], [85, 100]),
      (3, [0, 0, 2, 2], [1, 1])]"

text \<open>A detection file with records for the frames 1 and 3 and none for frame 2.\<close>

definition gap_frames :: string where
  "gap_frames = ''1,1,10,20,30,40'' @ nl @ ''3,1,0,0,2,2'' @ nl"

text \<open>The image directory of that sequence with the first three images only.\<close>

definition three_images :: "string \<Rightarrow> nat option" where
  "three_images p =
     (if p = ''./data/test/MOT16-01/img1/000001.jpg'' then Some 1
      else if p = ''./data/test/MOT16-01/img1/000002.jpg'' then Some 2
      else if p = ''./data/test/MOT16-01/img1/000003.jpg'' then Some 3
      else None)"


text \<open>The first two pulls on the iterator of that sequence, midpoints selected.\<close>

definition first_pulls ::
  "((nat \<times> lref) \<times> iter_pc \<times> nat fs \<times> rat SequenceLoader) list" where
  "first_pulls =
     pulls 2 (iter_next int_float)
       (Iter_created, det_fs three_frames three_images, loader5 ''./data/test/MOT16-01'' True)"

lemma seqinfo5_lines:
  "readlines seqinfo5 =
     [''[Sequence]'' @ nl, ''name=MOT16-02'' @ nl, ''imDir=img1'' @ nl, ''frameRate=30'' @ nl,
      ''seqLength=5'' @ nl, ''imWidth=1920'' @ nl, ''imHeight=1080'' @ nl, ''imExt=.jpg'' @ nl]"
  by (simp add: seqinfo5_def readlines_def nl_def)

lemma init_seqinfo5:
  "files d (path @ ''/seqinfo.ini'') = Some seqinfo5 \<Longrightarrow>
     SequenceLoader_init d path mp = Inr (loader5 path mp)"
  by (simp add: SequenceLoader_init_def seqinfo5_lines info_value_def index_def nl_def
        loader5_def)

section \<open>The Dataset Iterator\<close>

lemma load_sequence_sequence_update [simp]:
  "load_sequence d (dl\<lparr>sequence := x\<rparr>) n = load_sequence d dl n"
  by (simp add: load_sequence_def sequence_filepath_def)

lemma load_sequence_not_found:
  "glob d (sequence_filepath dl n) = [] \<Longrightarrow> load_sequence d dl n = Inl IOError"
  by (simp add: load_sequence_def)

lemma load_sequence_no_manifest:
  "files d (concat (glob d (sequence_filepath dl n)) @ ''/seqinfo.ini'') = None \<Longrightarrow>
     load_sequence d dl n = Inl IOError"
  by (simp add: load_sequence_def SequenceLoader_init_def)

lemma dl_loop_sequences:
  fixes sls :: "'f SequenceLoader list"
  assumes "map (load_sequence d dl) [k..m - 1] = map Inr sls"
    and "(load_sequence d dl m :: error + 'f SequenceLoader) = Inl err"
    and "k \<le> m"
    and "nat (m - k) < fuel"
  shows "dl_sequences fuel d (DL_loop, dl\<lparr>sequence := k\<rparr>)
         = Some (sls, if err = IOError then None else Some err)"
  using assms
proof (induction sls arbitrary: k fuel)
  case Nil
  then have "k = m" by (simp split: if_splits)
  moreover from Nil obtain f where "fuel = Suc f" by (cases fuel) auto
  ultimately show ?case
    using Nil.prems(2) by (simp add: dl_next_def dl_try_def)
next
  case (Cons x xs)
  from Cons.prems(1) have km: "k \<le> m - 1"
    by (cases "k \<le> m - 1") auto
  then have up: "[k..m - 1] = k # [k + 1..m - 1]"
    by (simp add: upto_rec1)
  with Cons.prems(1) have hd: "load_sequence d dl k = Inr x"
    and tl: "map (load_sequence d dl) [k + 1..m - 1] = map Inr xs"
    by auto
  from Cons.prems(4) km obtain f where f: "fuel = Suc f" "nat (m - (k + 1)) < f"
    by (cases fuel) auto
  have "dl_sequences f d (DL_loop, dl\<lparr>sequence := k + 1\<rparr>)
        = Some (xs, if err = IOError then None else Some err)"
    using Cons.IH[OF tl Cons.prems(2) _ f(2)] km by simp
  then show ?case using f hd
    by (simp add: dl_next_def dl_try_def)
qed

text \<open>
  C7, as the code has it. The Dataset Iterator tries the sequence numbers 1, 2, ...
  in turn and yields one loader for each number that \<open>load_sequence\<close> loads: its
  directory is found and its manifest is read. It stops at the first number \<open>m\<close> at
  which \<open>load_sequence\<close> raises (the numbers 1 to \<open>m - 1\<close> gave the loaders \<open>sls\<close>):
  without an error when the exception is an \<open>IOError\<close>, which is the case when no
  directory matches \<open>m\<close> and also when a directory is found and its manifest cannot be
  opened; with the exception otherwise. Fuel \<open>m\<close> is enough for the loop to end.
\<close>

theorem dataset_iterator_stops_at_first_ioerror:
  fixes sls :: "'f SequenceLoader list"
  assumes "map (load_sequence d dl) [1..m - 1] = map Inr sls"
    and "(load_sequence d dl m :: error + 'f SequenceLoader) = Inl err"
    and "1 \<le> m"
    and "nat m \<le> fuel"
  shows "dl_sequences fuel d (DL_created, dl)
           = Some (sls, if err = IOError then None else Some err)
       \<and> (glob d (sequence_filepath dl m) = [] \<longrightarrow> err = IOError)
       \<and> (files d (concat (glob d (sequence_filepath dl m)) @ ''/seqinfo.ini'') = None
            \<longrightarrow> err = IOError)"
proof -
  from assms(4) assms(3) obtain f where f: "fuel = Suc f" "nat (m - 1) < Suc f"
    by (cases fuel) auto
  have "dl_sequences (Suc f) d (DL_loop, dl\<lparr>sequence := 1\<rparr>)
        = Some (sls, if err = IOError then None else Some err)"
    by (rule dl_loop_sequences[OF assms(1) assms(2) assms(3) f(2)])
  then have run: "dl_sequences fuel d (DL_created, dl)
                  = Some (sls, if err = IOError then None else Some err)"
    using f by (simp add: dl_next_def)
  have "glob d (sequence_filepath dl m) = [] \<longrightarrow> err = IOError"
  proof
    assume "glob d (sequence_filepath dl m) = []"
    then have "(load_sequence d dl m :: error + 'f SequenceLoader) = Inl IOError"
      by (rule load_sequence_not_found)
    with assms(2) show "err = IOError" by simp
  qed
  moreover have "files d (concat (glob d (sequence_filepath dl m)) @ ''/seqinfo.ini'') = None
                  \<longrightarrow> err = IOError"
  proof
    assume "files d (concat (glob d (sequence_filepath dl m)) @ ''/seqinfo.ini'') = None"
    then have "(load_sequence d dl m :: error + 'f SequenceLoader) = Inl IOError"
      by (rule load_sequence_no_manifest)
    with assms(2) show "err = IOError" by simp
  qed
  ultimately show ?thesis using run by blast
qed

lemma gap_load_1:
  "load_sequence gap_fs data_loader 1 = Inr (loader5 ''./data/test/MOT16-01'' True)"
  by (simp add: load_sequence_def sequence_filepath_def str_int_def data_loader_def
        gap_fs_def init_seqinfo5)

lemma gap_load_2:
  "load_sequence gap_fs data_loader 2 = Inr (loader5 ''./data/test/MOT16-02'' True)"
  by (simp add: load_sequence_def sequence_filepath_def str_int_def data_loader_def
        gap_fs_def init_seqinfo5)

lemma gap_glob_3: "glob gap_fs (sequence_filepath data_loader 3) = []"
  by (simp add: sequence_filepath_def str_int_def data_loader_def gap_fs_def)

lemma gap_glob_4: "glob gap_fs (sequence_filepath data_loader 4) \<noteq> []"
  by (simp add: sequence_filepath_def str_int_def data_loader_def gap_fs_def)

lemma gap_load_3: "load_sequence gap_fs data_loader 3 = Inl IOError"
  by (simp add: load_sequence_not_found gap_glob_3)

text \<open>
  With the directories 1, 2 and 4 and their manifests (a directory for 4 is there,
  none for 3), the iterator yields the loaders of the sequences 1 and 2 and stops.
\<close>

theorem dataset_iterator_gap_witness:
  "glob gap_fs (sequence_filepath data_loader 3) = [] \<and>
   glob gap_fs (sequence_filepath data_loader 4) \<noteq> [] \<and>
   dl_sequences 3 gap_fs (DL_created, data_loader)
     = Some ([loader5 ''./data/test/MOT16-01'' True, loader5 ''./data/test/MOT16-02'' True],
             None)"
  using dataset_iterator_stops_at_first_ioerror
    [of gap_fs data_loader 3
        "[loader5 ''./data/test/MOT16-01'' True, loader5 ''./data/test/MOT16-02'' True]"
        IOError 3]
  by (simp add: gap_load_1 gap_load_2 gap_load_3 gap_glob_3 gap_glob_4 upto_rec1)

text \<open>
  The claim C7 as stated fails. The directories of the sequences 1 and 2 are both
  found and the second holds no manifest: the iterator yields the loader of sequence 1
  only and ends at the number 2, for which a matching directory is found.
\<close>

theorem dataset_iterator_ends_at_found_directory_counterexample:
  "glob second_manifest_missing_fs (sequence_filepath data_loader 1) = [''./data/test/MOT16-01'']
   \<and> glob second_manifest_missing_fs (sequence_filepath data_loader 2) = [''./data/test/MOT16-02'']
   \<and> dl_sequences 2 second_manifest_missing_fs (DL_created, data_loader)
       = Some ([loader5 ''./data/test/MOT16-01'' True], None)"
  by (simp add: numeral_2_eq_2 second_manifest_missing_fs_def data_loader_def
        sequence_filepath_def str_int_def dl_next_def dl_try_def load_sequence_def
        SequenceLoader_init_def init_seqinfo5 seqinfo5_lines info_value_def index_def nl_def
        loader5_def)

lemmas eval_defs =
  pyint_def strip_def is_space_def unsigned_literal_def is_digit_def digit_val_def
  int_float_def index_def nl_def

lemma three_frames_lines:
  "readlines three_frames =
     [''1,1,10,20,30,40'' @ nl, ''2,1,50,60,70,80'' @ nl, ''3,1,0,0,2,2'' @ nl]"
  by (simp add: three_frames_def readlines_def nl_def)

text \<open>
  C9, as the code has it. When the directory of the next sequence is found and its
  manifest cannot be opened, the \<open>IOError\<close> of \<open>open\<close> is caught by the
  \<open>except IOError\<close> of the Dataset Iterator: the pull ends the iteration cleanly
  instead of raising, and the iterator stays ended (the sequence is not tried again).
\<close>

theorem manifest_ioerror_ends_dataset_iteration:
  assumes "concat (glob d (sequence_filepath dl (sequence dl))) = path"
    and "path \<noteq> []"
    and "files d (path @ ''/seqinfo.ini'') = None"
  shows "(dl_next d (DL_loop, dl) :: ('f SequenceLoader, dl_pc \<times> DataLoader) step)
           = Stop (DL_done, dl)
       \<and> (dl_next d (DL_done, dl) :: ('f SequenceLoader, dl_pc \<times> DataLoader) step)
           = Stop (DL_done, dl)"
  using assms
  by (simp add: dl_next_def dl_try_def load_sequence_def SequenceLoader_init_def)

theorem manifest_ioerror_ends_dataset_iteration_witness:
  "concat (glob no_manifest_fs
       (sequence_filepath (data_loader\<lparr>sequence := 1\<rparr>) (sequence (data_loader\<lparr>sequence := 1\<rparr>))))
     = ''./data/test/MOT16-01''
   \<and> files no_manifest_fs (''./data/test/MOT16-01'' @ ''/seqinfo.ini'') = None
   \<and> (dl_next no_manifest_fs (DL_loop, data_loader\<lparr>sequence := 1\<rparr>)
        :: (rat SequenceLoader, dl_pc \<times> DataLoader) step)
       = Stop (DL_done, data_loader\<lparr>sequence := 1\<rparr>)"
  using manifest_ioerror_ends_dataset_iteration
    [of no_manifest_fs "data_loader\<lparr>sequence := 1\<rparr>" "''./data/test/MOT16-01''",
     where ?'f = rat]
  by (simp add: no_manifest_fs_def data_loader_def sequence_filepath_def str_int_def)

text \<open>
  The claim C9 as stated fails: with the directory of sequence 1 found and no
  manifest in it, iterating the dataset yields nothing and ends without an error.
\<close>

theorem manifest_ioerror_absorbed_counterexample:
  "glob no_manifest_fs (sequence_filepath data_loader 1) = [''./data/test/MOT16-01'']
   \<and> files no_manifest_fs (''./data/test/MOT16-01'' @ ''/seqinfo.ini'') = None
   \<and> dl_sequences 1 no_manifest_fs (DL_created, data_loader)
       = Some ([] :: rat SequenceLoader list, None)"
  by (simp add: no_manifest_fs_def data_loader_def sequence_filepath_def str_int_def
        dl_next_def dl_try_def load_sequence_def SequenceLoader_init_def)

section \<open>The Frame-Annotation Grouper\<close>

lemma load_gt_groups_unfold: "load_gt_groups pf w =
     (case load_gt_next pf w of
        Yield r w' \<Rightarrow>
          (case load_gt_groups pf w' of (gs, e) \<Rightarrow> (heap (snd w') r # gs, e))
      | Stop w' \<Rightarrow> ([], None)
      | Raise e \<Rightarrow> ([], Some e))"
  by (rule load_gt_groups.simps)

lemma load_gt_groups_Opened:
  "pc s = Opened \<Longrightarrow> load_gt_groups pf (d, s) = groups_from pf d s (fid s)"
  by (subst load_gt_groups_unfold) (simp add: load_gt_next_def groups_from_def)

lemma load_gt_groups_Suspended:
  "pc s = Suspended box \<Longrightarrow> append_box pf box (clear_lists s) = Inr s' \<Longrightarrow>
     load_gt_groups pf (d, s) = groups_from pf d s' (fid s)"
  by (subst load_gt_groups_unfold) (simp add: load_gt_next_def groups_from_def)

lemma load_gt_groups_Flushed:
  "pc s = Flushed \<Longrightarrow> load_gt_groups pf (d, s) = ([], None)"
  by (subst load_gt_groups_unfold) (simp add: load_gt_next_def)

lemma load_gt_groups_Created:
  "pc s = Created \<Longrightarrow> open_gt d s = Inr (d', txt) \<Longrightarrow>
     load_gt_groups pf (d, s) =
       groups_from pf d' (s\<lparr>heap := (heap s)(Boxes_list := [], Midpoints_list := [])\<rparr>) (readlines txt)"
  by (subst load_gt_groups_unfold) (simp add: load_gt_next_def groups_from_def)

lemma parse_line_SomeD:
  assumes "parse_line pf line = Some (n, b, m)"
  shows "\<exists>t. index (split_on CHR '','' line) 0 = Inr t \<and> pyint t = Some n"
    and "append_box pf (split_on CHR '','' line) s =
           Inr (s\<lparr>heap := (heap s)(Boxes_list := heap s Boxes_list @ [b],
                                   Midpoints_list := heap s Midpoints_list @ [m])\<rparr>)"
  using assms
  by (auto simp: parse_line_def append_box_def Let_def split: sum.splits option.splits)

lemma groups_from_loop_groups:
  assumes "map (parse_line pf) ls = map Some recs"
  shows "groups_from pf d s ls =
           (loop_groups (choose_midpoints s) (frame s) (heap s Boxes_list) (heap s Midpoints_list) recs,
            None)"
  using assms
proof (induction ls arbitrary: s recs)
  case Nil
  then show ?case
    by (simp add: groups_from_def with_fs_def load_gt_groups_Flushed)
next
  case (Cons line ls)
  then obtain n b m rs where recs: "recs = (n, b, m) # rs"
    and line: "parse_line pf line = Some (n, b, m)"
    and rest: "map (parse_line pf) ls = map Some rs"
    by (cases recs) auto
  from parse_line_SomeD(1)[OF line] obtain t where
    t: "index (split_on CHR '','' line) 0 = Inr t" "pyint t = Some n" by blast
  let ?box = "split_on CHR '','' line"
  show ?case
  proof (cases "n = frame s")
    case True
    let ?s' = "s\<lparr>heap := (heap s)(Boxes_list := heap s Boxes_list @ [b],
                                   Midpoints_list := heap s Midpoints_list @ [m])\<rparr>"
    have "groups_from pf d s (line # ls) = groups_from pf d ?s' ls"
      using t True parse_line_SomeD(2)[OF line, of s]
      by (simp add: groups_from_def Let_def)
    also have "\<dots> = (loop_groups (choose_midpoints ?s') (frame ?s') (heap ?s' Boxes_list)
                        (heap ?s' Midpoints_list) rs, None)"
      by (rule Cons.IH[OF rest])
    finally show ?thesis using True recs by simp
  next
    case False
    let ?s1 = "s\<lparr>frame := frame s + 1, midpoints := Midpoints_list,
                  pc := Suspended ?box, fid := ls\<rparr>"
    let ?s2 = "(clear_lists ?s1)\<lparr>heap := (heap (clear_lists ?s1))
                  (Boxes_list := heap (clear_lists ?s1) Boxes_list @ [b],
                   Midpoints_list := heap (clear_lists ?s1) Midpoints_list @ [m])\<rparr>"
    have step: "for_lines pf s (line # ls) =
        Yield (if choose_midpoints s then Midpoints_list else Boxes_list) ?s1"
      using t False by (simp add: Let_def)
    have "load_gt_groups pf (d, ?s1) = groups_from pf d ?s2 (fid ?s1)"
      by (rule load_gt_groups_Suspended[OF _ parse_line_SomeD(2)[OF line]]) simp
    also have "\<dots> = (loop_groups (choose_midpoints ?s2) (frame ?s2) (heap ?s2 Boxes_list)
                        (heap ?s2 Midpoints_list) rs, None)"
      using Cons.IH[OF rest, of ?s2] by simp
    finally have "load_gt_groups pf (d, ?s1) =
        (loop_groups (choose_midpoints s) (frame s + 1) [b] [m] rs, None)"
      by (simp add: clear_lists_def)
    then show ?thesis using step False recs
      by (simp add: groups_from_def with_fs_def)
  qed
qed

lemma is_entry_of_simps [simp]: "is_entry_of b (n, b, m)" "is_entry_of m (n, b, m)"
  by (simp_all add: is_entry_of_def)

lemma concat_loop_groups_boxes:
  "concat (loop_groups False c bs ms recs) = bs @ map (\<lambda>r. fst (snd r)) recs"
  by (induction recs arbitrary: c bs ms) auto

lemma concat_loop_groups_entries:
  assumes "list_all2 is_entry_of bs brecs" and "list_all2 is_entry_of ms brecs"
  shows "list_all2 is_entry_of (concat (loop_groups ch c bs ms recs)) (brecs @ recs)"
  using assms
proof (induction recs arbitrary: c bs ms brecs)
  case Nil
  then show ?case by simp
next
  case (Cons r rs)
  obtain n b m where r: "r = (n, b, m)" by (cases r)
  show ?case
  proof (cases "n = c")
    case True
    have "list_all2 is_entry_of (concat (loop_groups ch c (bs @ [b]) (ms @ [m]) rs))
            ((brecs @ [r]) @ rs)"
      by (rule Cons.IH) (use Cons.prems r in \<open>auto intro: list_all2_appendI\<close>)
    then show ?thesis using True r by simp
  next
    case False
    have tl: "list_all2 is_entry_of (concat (loop_groups ch (c + 1) [b] [m] rs)) ([r] @ rs)"
      by (rule Cons.IH) (use r in auto)
    have hd: "list_all2 is_entry_of (if ch then ms else bs) brecs"
      using Cons.prems by simp
    from list_all2_appendI[OF hd tl] show ?thesis using False r by simp
  qed
qed

lemma loop_groups_frames:
  assumes "sorted (map fst recs)"
    and "\<forall>r \<in> set recs. c \<le> fst r \<and> fst r \<le> m"
    and "\<forall>k. c < k \<and> k \<le> m \<longrightarrow> k \<in> fst ` set recs"
    and "c \<le> m"
    and "list_all2 is_entry_of bs brecs" and "list_all2 is_entry_of ms brecs"
  shows "list_all2 (list_all2 is_entry_of) (loop_groups ch c bs ms recs)
           ((brecs @ [r \<leftarrow> recs. fst r = c]) # map (\<lambda>k. [r \<leftarrow> recs. fst r = k]) [c + 1..m])"
  using assms
proof (induction recs arbitrary: c bs ms brecs)
  case Nil
  then have "m = c"
    by (metis empty_iff image_empty list.set(1) order_le_less)
  with Nil show ?case by simp
next
  case (Cons r rs)
  obtain n b mm where r: "r = (n, b, mm)" by (cases r)
  have sorted_rs: "sorted (map fst rs)" and ge_n: "\<forall>x \<in> set rs. n \<le> fst x"
    using Cons.prems(1) r by auto
  have n_bounds: "c \<le> n" "n \<le> m" using Cons.prems(2) r by auto
  show ?case
  proof (cases "n = c")
    case True
    have 1: "\<forall>x \<in> set rs. c \<le> fst x \<and> fst x \<le> m" using Cons.prems(2) by auto
    have 2: "\<forall>k. c < k \<and> k \<le> m \<longrightarrow> k \<in> fst ` set rs"
      using Cons.prems(3) r True by auto
    have 3: "list_all2 is_entry_of (bs @ [b]) (brecs @ [r])"
      "list_all2 is_entry_of (ms @ [mm]) (brecs @ [r])"
      using Cons.prems(5,6) r by (auto intro: list_all2_appendI)
    have ih: "list_all2 (list_all2 is_entry_of) (loop_groups ch c (bs @ [b]) (ms @ [mm]) rs)
            (((brecs @ [r]) @ [x \<leftarrow> rs. fst x = c]) # map (\<lambda>k. [x \<leftarrow> rs. fst x = k]) [c + 1..m])"
      by (rule Cons.IH[OF sorted_rs 1 2 Cons.prems(4) 3])
    have mapeq: "map (\<lambda>k. [x \<leftarrow> r # rs. fst x = k]) [c + 1..m] = map (\<lambda>k. [x \<leftarrow> rs. fst x = k]) [c + 1..m]"
      using r True by (intro map_cong) auto
    have hdeq: "[x \<leftarrow> r # rs. fst x = c] = r # [x \<leftarrow> rs. fst x = c]"
      using r True by simp
    have lg: "loop_groups ch c bs ms (r # rs) = loop_groups ch c (bs @ [b]) (ms @ [mm]) rs"
      using r True by simp
    have rhs: "(brecs @ [x \<leftarrow> r # rs. fst x = c]) # map (\<lambda>k. [x \<leftarrow> r # rs. fst x = k]) [c + 1..m]
        = ((brecs @ [r]) @ [x \<leftarrow> rs. fst x = c]) # map (\<lambda>k. [x \<leftarrow> rs. fst x = k]) [c + 1..m]"
      by (simp only: mapeq hdeq append_Cons append_Nil append_assoc)
    show ?thesis unfolding lg rhs by (rule ih)
  next
    case False
    with n_bounds have lt: "c < n" by simp
    then have "c + 1 \<le> m" using n_bounds by simp
    then have "c + 1 \<in> fst ` set (r # rs)" using Cons.prems(3) by simp
    then have "n \<le> c + 1" using ge_n r by auto
    with lt have n: "n = c + 1" by simp
    have 1: "\<forall>x \<in> set rs. c + 1 \<le> fst x \<and> fst x \<le> m" using Cons.prems(2) ge_n n by auto
    have 2: "\<forall>k. c + 1 < k \<and> k \<le> m \<longrightarrow> k \<in> fst ` set rs"
    proof (intro allI impI)
      fix k assume k: "c + 1 < k \<and> k \<le> m"
      then have "k \<in> fst ` set (r # rs)" using Cons.prems(3) by simp
      with k n r show "k \<in> fst ` set rs" by auto
    qed
    have 3: "list_all2 is_entry_of [b] [r]" "list_all2 is_entry_of [mm] [r]"
      using r by auto
    have tl: "list_all2 (list_all2 is_entry_of) (loop_groups ch (c + 1) [b] [mm] rs)
            (([r] @ [x \<leftarrow> rs. fst x = c + 1]) # map (\<lambda>k. [x \<leftarrow> rs. fst x = k]) [c + 1 + 1..m])"
      by (rule Cons.IH[OF sorted_rs 1 2 \<open>c + 1 \<le> m\<close> 3])
    have none_c: "[x \<leftarrow> r # rs. fst x = c] = []"
      using 1 r n by (auto simp: filter_empty_conv)
    have hd: "list_all2 is_entry_of (if ch then ms else bs) (brecs @ [x \<leftarrow> r # rs. fst x = c])"
      using Cons.prems(5,6) none_c by simp
    have up: "[c + 1..m] = (c + 1) # [c + 1 + 1..m]"
      using \<open>c + 1 \<le> m\<close> by (simp add: upto_rec1)
    have rest: "map (\<lambda>k. [x \<leftarrow> r # rs. fst x = k]) [c + 1 + 1..m] = map (\<lambda>k. [x \<leftarrow> rs. fst x = k]) [c + 1 + 1..m]"
      using r n by (intro map_cong) auto
    have lg: "loop_groups ch c bs ms (r # rs) = (if ch then ms else bs) # loop_groups ch (c + 1) [b] [mm] rs"
      using r False by simp
    have hdeq: "[x \<leftarrow> r # rs. fst x = c + 1] = r # [x \<leftarrow> rs. fst x = c + 1]"
      using r n by simp
    have rhs: "(brecs @ [x \<leftarrow> r # rs. fst x = c]) # map (\<lambda>k. [x \<leftarrow> r # rs. fst x = k]) [c + 1..m]
       = (brecs @ [x \<leftarrow> r # rs. fst x = c]) # ([r] @ [x \<leftarrow> rs. fst x = c + 1]) # map (\<lambda>k. [x \<leftarrow> rs. fst x = k]) [c + 1 + 1..m]"
      by (simp only: up list.map rest hdeq append_Cons append_Nil)
    show ?thesis unfolding lg rhs using hd tl by (rule list_all2_Cons[THEN iffD2, OF conjI])
  qed
qed

lemma load_gt_groups_records:
  assumes "pc s = Created" and "open_gt d s = Inr (d', txt)"
    and "map (parse_line pf) (readlines txt) = map Some recs"
  shows "load_gt_groups pf (d, s) = (loop_groups (choose_midpoints s) (frame s) [] [] recs, None)"
  using load_gt_groups_Created[OF assms(1,2), of pf]
    groups_from_loop_groups[OF assms(3), of d' "s\<lparr>heap := (heap s)(Boxes_list := [], Midpoints_list := [])\<rparr>"]
  by simp

lemma det_open:
  "open_gt (det_fs txt imgs) (det_loader mp) = Inr (det_fs txt imgs, txt)"
  by (simp add: open_gt_def det_fs_def det_loader_def loader5_def)

lemma three_frames_records:
  "map (parse_line int_float) (readlines three_frames) = map Some three_records"
  by (simp add: three_frames_lines three_records_def parse_line_def eval_defs)

lemma gap_frames_lines:
  "readlines gap_frames = [''1,1,10,20,30,40'' @ nl, ''3,1,0,0,2,2'' @ nl]"
  by (simp add: gap_frames_def readlines_def nl_def)

text \<open>
  C2. When every line of the annotation file \<open>load_gt\<close> opens is a record, the run of
  the generator ends without an exception and the groups, concatenated in the order of
  emission, have one entry for each record, in the order of the file: the box or the
  midpoint of that record. With the full-box representation the concatenation is the
  list of the boxes of all records. No record is lost and none is duplicated.
\<close>

theorem grouper_emits_every_record_once:
  assumes "pc s = Created" and "open_gt d s = Inr (d', txt)"
    and "map (parse_line pf) (readlines txt) = map Some recs"
  shows "snd (load_gt_groups pf (d, s)) = None
       \<and> list_all2 is_entry_of (concat (fst (load_gt_groups pf (d, s)))) recs
       \<and> (\<not> choose_midpoints s \<longrightarrow>
            concat (fst (load_gt_groups pf (d, s))) = map (\<lambda>r. fst (snd r)) recs)"
proof -
  have "list_all2 is_entry_of (concat (loop_groups (choose_midpoints s) (frame s) [] [] recs)) ([] @ recs)"
    by (rule concat_loop_groups_entries) simp_all
  then show ?thesis
    by (simp add: load_gt_groups_records[OF assms] concat_loop_groups_boxes)
qed

theorem grouper_emits_every_record_once_witness:
  "pc (det_loader False) = Created
   \<and> open_gt (det_fs three_frames (\<lambda>p. None)) (det_loader False)
       = Inr (det_fs three_frames (\<lambda>p. None), three_frames)
   \<and> map (parse_line int_float) (readlines three_frames) = map Some three_records
   \<and> concat (fst (load_gt_groups int_float (det_fs three_frames (\<lambda>p. None), det_loader False)))
       = [[10, 20, 30, 40], [50, 60, 70, 80], [0, 0, 2, 2]]"
  using grouper_emits_every_record_once
    [of "det_loader False" "det_fs three_frames (\<lambda>p. None)" "det_fs three_frames (\<lambda>p. None)"
        three_frames int_float three_records]
  by (simp add: det_open three_frames_records) (simp add: det_loader_def loader5_def three_records_def)

text \<open>
  C1, as the code has it. For a frame-sorted annotation file with frame indices in
  \<open>1..m\<close> in which every frame from 2 to \<open>m\<close> has a record, the generator emits
  \<open>m\<close> groups, in the order of the frames 1 to \<open>m\<close>, and the group of frame \<open>k\<close> has
  one entry for each record of frame \<open>k\<close> (an empty group for frame 1 when the first
  record is of frame 2).
\<close>

theorem grouper_groups_follow_frames:
  assumes "pc s = Created" and "open_gt d s = Inr (d', txt)"
    and "map (parse_line pf) (readlines txt) = map Some recs"
    and "frame s = 1"
    and "sorted (map fst recs)"
    and "\<forall>r \<in> set recs. 1 \<le> fst r \<and> fst r \<le> m"
    and "set [2..m] \<subseteq> fst ` set recs"
    and "1 \<le> m"
  shows "snd (load_gt_groups pf (d, s)) = None
       \<and> list_all2 (list_all2 is_entry_of) (fst (load_gt_groups pf (d, s)))
            (map (\<lambda>k. [r \<leftarrow> recs. fst r = k]) [1..m])"
proof -
  have "list_all2 (list_all2 is_entry_of) (loop_groups (choose_midpoints s) 1 [] [] recs)
           (([] @ [r \<leftarrow> recs. fst r = 1]) # map (\<lambda>k. [r \<leftarrow> recs. fst r = k]) [1 + 1..m])"
  proof (rule loop_groups_frames[OF assms(5,6) _ assms(8)])
    show "\<forall>k. 1 < k \<and> k \<le> m \<longrightarrow> k \<in> fst ` set recs"
      using assms(7) by auto
  qed simp_all
  moreover have "[1..m] = 1 # [1 + 1..m]" using assms(8) by (simp add: upto_rec1)
  ultimately show ?thesis
    by (simp add: load_gt_groups_records[OF assms(1-3)] assms(4))
qed

theorem grouper_groups_follow_frames_witness:
  "sorted (map fst three_records)
   \<and> list_all2 (list_all2 is_entry_of)
       (fst (load_gt_groups int_float (det_fs three_frames (\<lambda>p. None), det_loader True)))
       [[(1, [10, 20, 30, 40], [25, 40])], [(2, [50, 60, 70, 80], [85, 100])], [(3, [0, 0, 2, 2], [1, 1])]]"
  using grouper_groups_follow_frames
    [of "det_loader True" "det_fs three_frames (\<lambda>p. None)" "det_fs three_frames (\<lambda>p. None)"
        three_frames int_float three_records 3]
  by (simp add: det_open three_frames_records)
     (simp add: det_loader_def loader5_def three_records_def upto_rec1)

text \<open>
  The claim C1 as stated fails. Frame 2 has no record in \<open>gap_frames\<close>: the generator
  emits two groups, the second with the record of frame 3, and no empty group.
\<close>

theorem empty_frame_gets_no_group_counterexample:
  "load_gt_groups int_float (det_fs gap_frames (\<lambda>p. None), det_loader False)
     = ([[[10, 20, 30, 40]], [[0, 0, 2, 2]]], None)"
  by (simp add: load_gt_groups_unfold load_gt_next_def open_gt_def det_fs_def det_loader_def loader5_def gap_frames_lines
        with_fs_def append_box_def clear_lists_def eval_defs)


text \<open>
  C5 fails on the code. With the midpoint representation selected and a detection file
  of three frames, the groups of the first two frames are lists of midpoints and the
  last group, yielded after the loop, is the list of boxes.
\<close>

theorem final_flush_ignores_midpoint_flag:
  "load_gt_groups int_float (det_fs three_frames (\<lambda>p. None), det_loader True)
   = ([[[25, 40]], [[85, 100]], [[0, 0, 2, 2]]], None)"
  by (simp add: load_gt_groups_unfold load_gt_next_def open_gt_def det_fs_def det_loader_def
        loader5_def three_frames_lines with_fs_def append_box_def clear_lists_def eval_defs)

section \<open>The Sequence Iterator\<close>

lemma append_box_InrD:
  "append_box pf box s = Inr s' \<Longrightarrow>
     \<exists>b m. s' = s\<lparr>heap := (heap s)(Boxes_list := heap s Boxes_list @ [b],
                                   Midpoints_list := heap s Midpoints_list @ [m])\<rparr>"
  by (auto simp: append_box_def split: sum.splits)

lemma for_lines_ref:
  "for_lines pf s ls = Yield r s' \<Longrightarrow>
     (pc s' = Flushed \<and> r = Boxes_list)
     \<or> ((\<exists>b. pc s' = Suspended b)
        \<and> r = (if choose_midpoints s' then Midpoints_list else Boxes_list)
        \<and> midpoints s' = Midpoints_list)"
proof (induction ls arbitrary: s)
  case Nil
  then show ?case by auto
next
  case (Cons l ls)
  then show ?case
    by (fastforce simp: Let_def split: sum.splits option.splits if_splits)
qed

lemma load_gt_next_YieldD:
  assumes "load_gt_next pf (d, s) = Yield r (d', s')"
  shows "\<exists>sa la. for_lines pf sa la = Yield r s'"
  using assms
  by (cases "pc s")
     (auto simp: load_gt_next_def with_fs_def split: sum.splits step.splits prod.splits)

lemma iter_next_YieldD:
  assumes "iter_next pf st = Yield (img, r) st'"
  shows "\<exists>w j n. load_gt_next pf w = Yield r (snd st') \<and> fst st' = Iter_loop j n
          \<and> (fst st = Iter_created \<or> w = snd st)"
proof -
  obtain c d s where st: "st = (c, d, s)" by (cases st)
  show ?thesis
  proof (cases c)
    case Iter_created
    with assms st obtain n where
      "iter_body pf 1 n (d, s\<lparr>pc := Created, frame := 1\<rparr>) = Yield (img, r) st'"
      by (auto simp: iter_next_def split: option.splits)
    then have "load_gt_next pf (d, s\<lparr>pc := Created, frame := 1\<rparr>) = Yield r (snd st')
        \<and> fst st' = Iter_loop (1 + 1) n"
      by (auto simp: iter_body_def split: option.splits step.splits if_splits)
    with Iter_created st show ?thesis by auto
  next
    case (Iter_loop i n)
    with assms st have "iter_body pf i n (d, s) = Yield (img, r) st'"
      by (simp add: iter_next_def)
    then have "load_gt_next pf (d, s) = Yield r (snd st') \<and> fst st' = Iter_loop (i + 1) n"
      by (auto simp: iter_body_def split: option.splits step.splits if_splits)
    with Iter_loop st show ?thesis by auto
  next
    case Iter_done
    with assms st show ?thesis by (simp add: iter_next_def)
  qed
qed

lemma for_lines_fields:
  "for_lines pf s ls = Yield r s' \<Longrightarrow>
     filepath s' = filepath s \<and> imDir s' = imDir s \<and> imExt s' = imExt s"
proof (induction ls arbitrary: s)
  case Nil
  then show ?case by auto
next
  case (Cons l ls)
  show ?case
  proof (cases "\<exists>s1. append_box pf (split_on CHR '','' l) s = Inr s1 \<and> for_lines pf s1 ls = Yield r s'")
    case True
    then obtain s1 where s1: "append_box pf (split_on CHR '','' l) s = Inr s1"
      and rec: "for_lines pf s1 ls = Yield r s'" by blast
    from append_box_InrD[OF s1] Cons.IH[OF rec] show ?thesis by auto
  next
    case False
    with Cons.prems show ?thesis
      by (auto simp: Let_def split: sum.splits option.splits if_splits)
  qed
qed

lemma open_gt_imread: "open_gt d s = Inr (d', txt) \<Longrightarrow> imread d' = imread d"
  by (auto simp: open_gt_def fix_gt_def split: if_splits sum.splits option.splits)

lemma load_gt_next_keeps_images:
  assumes "load_gt_next pf (d, s) = Yield r (d', s')"
  shows "imread d' = imread d \<and> img_filename s' = img_filename s"
proof -
  have "imread d' = imread d \<and> filepath s' = filepath s \<and> imDir s' = imDir s \<and> imExt s' = imExt s"
  proof (cases "pc s")
    case Created
    with assms obtain content where opened: "open_gt d s = Inr (d', content)"
      and run: "for_lines pf (s\<lparr>heap := (heap s)(Boxes_list := [], Midpoints_list := [])\<rparr>)
                  (readlines content) = Yield r s'"
      by (auto simp: load_gt_next_def with_fs_def split: sum.splits step.splits prod.splits)
    from open_gt_imread[OF opened] for_lines_fields[OF run] show ?thesis by simp
  next
    case Opened
    with assms have "d' = d" and run: "for_lines pf s (fid s) = Yield r s'"
      by (auto simp: load_gt_next_def with_fs_def split: step.splits)
    with for_lines_fields[OF run] show ?thesis by simp
  next
    case (Suspended box)
    with assms obtain sb where sb: "append_box pf box (clear_lists s) = Inr sb"
      and "d' = d" and run: "for_lines pf sb (fid s) = Yield r s'"
      by (auto simp: load_gt_next_def with_fs_def split: sum.splits step.splits)
    with append_box_InrD[OF sb] for_lines_fields[OF run] show ?thesis
      by (auto simp: clear_lists_def)
  next
    case Flushed
    with assms show ?thesis by (simp add: load_gt_next_def)
  next
    case Exhausted
    with assms show ?thesis by (simp add: load_gt_next_def)
  qed
  then show ?thesis by (auto simp: img_filename_def fun_eq_iff)
qed

lemma load_gt_groups_ConsD:
  assumes "load_gt_groups pf w = (g # gs, e)"
  shows "\<exists>r w'. load_gt_next pf w = Yield r w' \<and> heap (snd w') r = g
            \<and> load_gt_groups pf w' = (gs, e)"
  using assms
  by (subst (asm) load_gt_groups_unfold) (auto split: step.splits prod.splits)

lemma load_gt_groups_NilD:
  assumes "load_gt_groups pf w = ([], e)"
  shows "(e = None \<and> (\<exists>w'. load_gt_next pf w = Stop w'))
       \<or> (\<exists>x. e = Some x \<and> load_gt_next pf w = Raise x)"
  using assms
  by (subst (asm) load_gt_groups_unfold) (auto split: step.splits prod.splits)

lemma iter_loop_pairs:
  assumes "load_gt_groups pf w = (gs, e)"
    and "map (\<lambda>j. imread (fst w) (img_filename (snd w) j)) [i..i + int (length imgs) - 1]
           = map Some imgs"
    and "imread (fst w) (img_filename (snd w) (i + int (length imgs))) = None"
    and "i + int (length imgs) - 1 \<le> n"
  shows "iter_pairs pf (Iter_loop i n, w)
         = (zip imgs gs,
            if length imgs \<le> length gs then None
            else Some (case e of None \<Rightarrow> RuntimeError | Some x \<Rightarrow> x))"
  using assms
proof (induction imgs arbitrary: i w gs)
  case Nil
  then have "iter_next pf (Iter_loop i n, w) = Stop (Iter_done, w)"
    by (cases w) (simp add: iter_next_def iter_body_def)
  then show ?case
    by (subst iter_pairs.simps) simp
next
  case (Cons img imgs)
  obtain d s where w: "w = (d, s)" by (cases w)
  have up: "[i..i + int (length (img # imgs)) - 1] = i # [i + 1..i + 1 + int (length imgs) - 1]"
    by (simp add: upto_rec1)
  from Cons.prems(2)[unfolded up] w have
    here: "imread d (img_filename s i) = Some img"
    and later: "map (\<lambda>j. imread d (img_filename s j)) [i + 1..i + 1 + int (length imgs) - 1]
                  = map Some imgs"
    by auto
  have "i \<le> n" using Cons.prems(4) by simp
  show ?case
  proof (cases gs)
    case Nil
    from load_gt_groups_NilD[OF Cons.prems(1)[unfolded Nil]]
    have "iter_next pf (Iter_loop i n, w)
          = Raise (case e of None \<Rightarrow> RuntimeError | Some x \<Rightarrow> x)"
      using here \<open>i \<le> n\<close> w by (auto simp: iter_next_def iter_body_def)
    then show ?thesis
      using Nil by (subst iter_pairs.simps) simp
  next
    case (Cons g gs')
    note gs = this
    from load_gt_groups_ConsD[OF Cons.prems(1)[unfolded gs]] obtain r w' where
      nxt: "load_gt_next pf w = Yield r w'" and g: "heap (snd w') r = g"
      and rest: "load_gt_groups pf w' = (gs', e)" by blast
    obtain d' s' where w': "w' = (d', s')" by (cases w')
    from load_gt_next_keeps_images[OF nxt[unfolded w w']] have
      keep: "imread d' = imread d" "img_filename s' = img_filename s" by auto
    have step: "iter_next pf (Iter_loop i n, w) = Yield (img, r) (Iter_loop (i + 1) n, w')"
      using here nxt \<open>i \<le> n\<close> w by (simp add: iter_next_def iter_body_def)
    have ih: "iter_pairs pf (Iter_loop (i + 1) n, w')
              = (zip imgs gs',
                 if length imgs \<le> length gs' then None
                 else Some (case e of None \<Rightarrow> RuntimeError | Some x \<Rightarrow> x))"
    proof (rule Cons.IH[OF rest])
      show "map (\<lambda>j. imread (fst w') (img_filename (snd w') j)) [i + 1..i + 1 + int (length imgs) - 1]
              = map Some imgs"
        using later keep w' by simp
      have "i + 1 + int (length imgs) = i + int (length (img # imgs))" by simp
      then show "imread (fst w') (img_filename (snd w') (i + 1 + int (length imgs))) = None"
        using Cons.prems(3) keep w w' by (simp only: fst_conv snd_conv)
      show "i + 1 + int (length imgs) - 1 \<le> n" using Cons.prems(4) by simp
    qed
    show ?thesis
      by (subst iter_pairs.simps) (simp add: step ih[unfolded w'] g[unfolded w', simplified] gs w')
  qed
qed

lemma loader5_img_filenames:
  "img_filename (loader5 ''./data/test/MOT16-01'' mp) 1 = ''./data/test/MOT16-01/img1/000001.jpg''"
  "img_filename (loader5 ''./data/test/MOT16-01'' mp) 2 = ''./data/test/MOT16-01/img1/000002.jpg''"
  "img_filename (loader5 ''./data/test/MOT16-01'' mp) 3 = ''./data/test/MOT16-01/img1/000003.jpg''"
  "img_filename (loader5 ''./data/test/MOT16-01'' mp) 4 = ''./data/test/MOT16-01/img1/000004.jpg''"
  by (simp_all add: img_filename_def loader5_def zfill_def str_int_def eval_nat_numeral)

lemma three_frames_groups:
  "load_gt_groups int_float (det_fs three_frames imgs, det_loader True)
   = ([[[25, 40]], [[85, 100]], [[0, 0, 2, 2]]], None)"
  by (simp add: load_gt_groups_unfold load_gt_next_def open_gt_def det_fs_def det_loader_def
        loader5_def three_frames_lines with_fs_def append_box_def clear_lists_def eval_defs)

lemma seqLength5: "pyint (seqLength (loader5 p mp)) = Some 5"
  by (simp add: loader5_def eval_defs)

lemma pulls_2D:
  assumes "length (pulls 2 nxt st) = 2"
  shows "nxt st = Yield (fst (pulls 2 nxt st ! 0)) (snd (pulls 2 nxt st ! 0))
       \<and> nxt (snd (pulls 2 nxt st ! 0)) = Yield (fst (pulls 2 nxt st ! 1)) (snd (pulls 2 nxt st ! 1))"
proof -
  have two: "pulls 2 nxt st = pulls (Suc (Suc 0)) nxt st" by (simp add: numeral_2_eq_2)
  from assms[unfolded two] obtain a st1 where 1: "nxt st = Yield a st1"
    by (cases "nxt st") auto
  with assms[unfolded two] obtain b st2 where 2: "nxt st1 = Yield b st2"
    by (cases "nxt st1") auto
  from 1 2 show ?thesis unfolding two by simp
qed

lemma first_pulls_eval:
  "map (\<lambda>(a, st). (a, heap (snd (snd st)) Boxes_list, heap (snd (snd st)) Midpoints_list,
                    midpoints (snd (snd st)))) first_pulls
   = [((1, Midpoints_list), [[10, 20, 30, 40]], [[25, 40]], Midpoints_list),
      ((2, Midpoints_list), [[50, 60, 70, 80]], [[85, 100]], Midpoints_list)]"
  by (simp add: first_pulls_def numeral_2_eq_2 iter_next_def iter_body_def seqLength5
        loader5_img_filenames img_filename_def
        load_gt_next_def open_gt_def det_fs_def three_images_def
        loader5_def three_frames_lines with_fs_def append_box_def clear_lists_def eval_defs
        zfill_def str_int_def eval_nat_numeral)

lemma gap_frames_pairs:
  "iter_pairs int_float
     (Iter_created, det_fs gap_frames three_images, loader5 ''./data/test/MOT16-01'' True)
   = ([(1, [[25, 40]]), (2, [[0, 0, 2, 2]])], Some RuntimeError)"
  by (simp add: iter_pairs.simps iter_next_def iter_body_def seqLength5
        loader5_img_filenames img_filename_def
        load_gt_next_def open_gt_def det_fs_def three_images_def
        loader5_def gap_frames_lines with_fs_def append_box_def clear_lists_def eval_defs
        zfill_def str_int_def eval_nat_numeral)

text \<open>
  C6, as the code has it. The manifest declares \<open>n\<close> frames, the images of the first
  \<open>k\<close> frames are read (\<open>imgs\<close>, \<open>k < n\<close>) and the image of frame \<open>k + 1\<close> is absent.
  Every pair takes one group from the \<open>load_gt\<close> generator of the sequence, which
  alone would deliver the groups \<open>gs\<close> and then end (\<open>e = None\<close>) or raise \<open>e\<close>. The
  Sequence Iterator pairs the \<open>i\<close>-th image with the \<open>i\<close>-th group. When the generator
  has at least \<open>k\<close> groups to give, exactly \<open>k\<close> pairs are yielded and the iteration
  ends without an exception. When it has fewer, the iteration yields as many pairs as
  there are groups and then raises: the exception of the generator, or
  \<open>RuntimeError\<close> when the generator had simply ended.
\<close>

theorem sequence_iterator_stops_at_missing_image:
  assumes "pyint (seqLength s) = Some n"
    and "int (length imgs) < n"
    and "map (\<lambda>j. imread d (img_filename s j)) [1..int (length imgs)] = map Some imgs"
    and "imread d (img_filename s (int (length imgs) + 1)) = None"
    and "load_gt_groups pf (d, s\<lparr>pc := Created, frame := 1\<rparr>) = (gs, e)"
  shows "(length imgs \<le> length gs \<longrightarrow>
            iter_pairs pf (Iter_created, d, s) = (zip imgs gs, None)
            \<and> length (fst (iter_pairs pf (Iter_created, d, s))) = length imgs)
       \<and> (length gs < length imgs \<longrightarrow>
            iter_pairs pf (Iter_created, d, s)
              = (zip imgs gs, Some (case e of None \<Rightarrow> RuntimeError | Some x \<Rightarrow> x))
            \<and> length (fst (iter_pairs pf (Iter_created, d, s))) = length gs)"
proof -
  let ?s = "s\<lparr>pc := Created, frame := 1\<rparr>"
  have fn: "img_filename ?s = img_filename s" by (simp add: img_filename_def fun_eq_iff)
  have loop: "iter_pairs pf (Iter_loop 1 n, d, ?s)
              = (zip imgs gs,
                 if length imgs \<le> length gs then None
                 else Some (case e of None \<Rightarrow> RuntimeError | Some x \<Rightarrow> x))"
  proof (rule iter_loop_pairs[OF assms(5)])
    show "map (\<lambda>j. imread (fst (d, ?s)) (img_filename (snd (d, ?s)) j)) [1..1 + int (length imgs) - 1]
            = map Some imgs"
      using assms(3) fn by simp
    show "imread (fst (d, ?s)) (img_filename (snd (d, ?s)) (1 + int (length imgs))) = None"
      using assms(4) fn by (simp add: add.commute)
    show "1 + int (length imgs) - 1 \<le> n" using assms(2) by simp
  qed
  have "iter_next pf (Iter_created, d, s) = iter_next pf (Iter_loop 1 n, d, ?s)"
    using assms(1) by (simp add: iter_next_def)
  then have "iter_pairs pf (Iter_created, d, s) = iter_pairs pf (Iter_loop 1 n, d, ?s)"
    by (subst iter_pairs.simps, subst (2) iter_pairs.simps) simp
  with loop show ?thesis by simp
qed

text \<open>
  The manifest declares 5 frames, 3 images are present and the detection file has
  records for the frames 1, 2 and 3: exactly 3 pairs, and no exception.
\<close>

theorem sequence_iterator_three_of_five_witness:
  "seqLength (loader5 ''./data/test/MOT16-01'' True) = ''5''
   \<and> map (imread (det_fs three_frames three_images))
        [''./data/test/MOT16-01/img1/000001.jpg'', ''./data/test/MOT16-01/img1/000002.jpg'',
         ''./data/test/MOT16-01/img1/000003.jpg'', ''./data/test/MOT16-01/img1/000004.jpg'']
       = [Some 1, Some 2, Some 3, None]
   \<and> iter_pairs int_float
        (Iter_created, det_fs three_frames three_images, loader5 ''./data/test/MOT16-01'' True)
       = ([(1, [[25, 40]]), (2, [[85, 100]]), (3, [[0, 0, 2, 2]])], None)"
  using sequence_iterator_stops_at_missing_image
    [of "loader5 ''./data/test/MOT16-01'' True" 5 "[1, 2, 3]"
        "det_fs three_frames three_images" int_float
        "[[[25, 40]], [[85, 100]], [[0, 0, 2, 2]]]" None]
    three_frames_groups[of three_images]
  by (simp add: seqLength5 loader5_img_filenames upto_rec1 det_loader_def)
     (simp add: det_fs_def three_images_def loader5_def)

text \<open>
  The claim C6 as stated fails. The manifest declares 5 frames and the first 3 images
  are present, but the detection file has records for the frames 1 and 3 only, so the
  \<open>load_gt\<close> generator has two groups to give: the iteration yields 2 pairs, not 3,
  and then raises instead of ending.
\<close>

theorem sequence_iterator_short_of_groups_counterexample:
  "seqLength (loader5 ''./data/test/MOT16-01'' True) = ''5''
   \<and> map (imread (det_fs gap_frames three_images))
        [''./data/test/MOT16-01/img1/000001.jpg'', ''./data/test/MOT16-01/img1/000002.jpg'',
         ''./data/test/MOT16-01/img1/000003.jpg'', ''./data/test/MOT16-01/img1/000004.jpg'']
       = [Some 1, Some 2, Some 3, None]
   \<and> iter_pairs int_float
        (Iter_created, det_fs gap_frames three_images, loader5 ''./data/test/MOT16-01'' True)
       = ([(1, [[25, 40]]), (2, [[0, 0, 2, 2]])], Some RuntimeError)"
  by (simp add: gap_frames_pairs) (simp add: det_fs_def three_images_def loader5_def)

lemma append_box_entries:
  "append_box pf box s = Inr s' \<Longrightarrow>
     \<exists>b m. box_of pf box = Inr b \<and> midpoint_of pf box = Inr m
        \<and> s' = s\<lparr>heap := (heap s)(Boxes_list := heap s Boxes_list @ [b],
                                   Midpoints_list := heap s Midpoints_list @ [m])\<rparr>"
  by (auto simp: append_box_def box_of_def midpoint_of_def split: sum.splits)

lemma for_lines_appends:
  assumes "for_lines pf s ls = Yield r s'"
  shows "length (fid s') + length (pending (pc s')) \<le> length ls
       \<and> map Inr (heap s' Boxes_list)
           = map Inr (heap s Boxes_list)
             @ map (box_of pf) (map (split_on CHR '','')
                 (take (length ls - length (fid s') - length (pending (pc s'))) ls))
       \<and> map Inr (heap s' Midpoints_list)
           = map Inr (heap s Midpoints_list)
             @ map (midpoint_of pf) (map (split_on CHR '','')
                 (take (length ls - length (fid s') - length (pending (pc s'))) ls))
       \<and> list_all (\<lambda>box. frame_index box = Some (frame s))
           (map (split_on CHR '','')
              (take (length ls - length (fid s') - length (pending (pc s'))) ls))"
  using assms
proof (induction ls arbitrary: s)
  case Nil
  then show ?case by (auto simp: pending_def)
next
  case (Cons l ls)
  let ?box = "split_on CHR '','' l"
  from Cons.prems obtain t n where t: "index ?box 0 = Inr t" and n: "pyint t = Some n"
    by (auto simp: Let_def split: sum.splits option.splits)
  show ?case
  proof (cases "n = frame s")
    case False
    with Cons.prems t n have
      "s' = s\<lparr>frame := frame s + 1, midpoints := Midpoints_list, pc := Suspended ?box, fid := ls\<rparr>"
      by (simp add: Let_def)
    then show ?thesis by (simp add: pending_def)
  next
    case True
    with Cons.prems t n obtain s1 where s1: "append_box pf ?box s = Inr s1"
      and rec: "for_lines pf s1 ls = Yield r s'"
      by (auto simp: Let_def split: sum.splits)
    from append_box_entries[OF s1] obtain b m where
      b: "box_of pf ?box = Inr b" and m: "midpoint_of pf ?box = Inr m"
      and s1_eq: "s1 = s\<lparr>heap := (heap s)(Boxes_list := heap s Boxes_list @ [b],
                                   Midpoints_list := heap s Midpoints_list @ [m])\<rparr>"
      by blast
    define k where "k = length ls - length (fid s') - length (pending (pc s'))"
    from Cons.IH[OF rec] have
      le: "length (fid s') + length (pending (pc s')) \<le> length ls"
      and bs: "map Inr (heap s' Boxes_list)
                = map Inr (heap s1 Boxes_list) @ map (box_of pf) (map (split_on CHR '','') (take k ls))"
      and ms: "map Inr (heap s' Midpoints_list)
                = map Inr (heap s1 Midpoints_list) @ map (midpoint_of pf) (map (split_on CHR '','') (take k ls))"
      and fr: "list_all (\<lambda>box. frame_index box = Some (frame s1)) (map (split_on CHR '','') (take k ls))"
      unfolding k_def by blast+
    have k': "length (l # ls) - length (fid s') - length (pending (pc s')) = Suc k"
      using le unfolding k_def by simp
    have fi: "frame_index ?box = Some (frame s)"
      using t n True by (simp add: frame_index_def)
    show ?thesis
      unfolding k' using le bs ms fr b m fi by (simp add: s1_eq)
  qed
qed

lemma for_lines_boundary:
  "for_lines pf s ls = Yield r s' \<Longrightarrow> pc s' = Suspended b \<Longrightarrow>
     \<exists>n. frame_index b = Some n \<and> n \<noteq> frame s' - 1"
proof (induction ls arbitrary: s)
  case Nil
  then show ?case by auto
next
  case (Cons l ls)
  let ?box = "split_on CHR '','' l"
  from Cons.prems obtain t n where t: "index ?box 0 = Inr t" and n: "pyint t = Some n"
    by (auto simp: Let_def split: sum.splits option.splits)
  show ?case
  proof (cases "n = frame s")
    case False
    with Cons.prems t n show ?thesis
      by (auto simp: Let_def frame_index_def)
  next
    case True
    with Cons.prems t n obtain s1 where s1: "append_box pf ?box s = Inr s1"
      and rec: "for_lines pf s1 ls = Yield r s'"
      by (auto simp: Let_def split: sum.splits)
    from Cons.IH[OF rec Cons.prems(2)] show ?thesis .
  qed
qed

lemma load_gt_next_resumeD:
  assumes "load_gt_next pf (d, s) = Yield r (d', s')" and "pc s = Suspended box"
  shows "\<exists>b m sb. box_of pf box = Inr b \<and> midpoint_of pf box = Inr m
           \<and> heap sb Boxes_list = [b] \<and> heap sb Midpoints_list = [m]
           \<and> frame sb = frame s
           \<and> for_lines pf sb (fid s) = Yield r s'"
proof -
  from assms obtain sb where sb: "append_box pf box (clear_lists s) = Inr sb"
    and run: "for_lines pf sb (fid s) = Yield r s'"
    by (auto simp: load_gt_next_def with_fs_def split: sum.splits step.splits)
  from append_box_entries[OF sb] obtain b m where
    "box_of pf box = Inr b" "midpoint_of pf box = Inr m"
    "heap sb Boxes_list = [b]" "heap sb Midpoints_list = [m]" "frame sb = frame s"
    by (cases "midpoints s") (auto simp: clear_lists_def)
  with run show ?thesis by blast
qed

lemma map_eq_2D:
  "map f xs = [a, b] \<Longrightarrow> length xs = 2 \<and> f (xs ! 0) = a \<and> f (xs ! 1) = b"
  by (cases xs; cases "tl xs") auto

lemma first_pulls_positions:
  "map (\<lambda>(a, st). (pc (snd (snd st)), fid (snd (snd st)), frame (snd (snd st)))) first_pulls
   = [(Suspended [''2'', ''1'', ''50'', ''60'', ''70'', ''80'' @ nl], [''3,1,0,0,2,2'' @ nl], 2),
      (Suspended [''3'', ''1'', ''0'', ''0'', ''2'', ''2'' @ nl], [], 3)]"
  by (simp add: first_pulls_def numeral_2_eq_2 iter_next_def iter_body_def seqLength5
        loader5_img_filenames img_filename_def
        load_gt_next_def open_gt_def det_fs_def three_images_def
        loader5_def three_frames_lines with_fs_def append_box_def clear_lists_def eval_defs
        zfill_def str_int_def eval_nat_numeral)

text \<open>
  C10, as the code has it. Of two pairs yielded one after the other, the group of the
  first is a buffer of the generator: with midpoints selected it is the very list that
  \<open>self.midpoints\<close> refers to. Delivering the second pair clears the buffers in place
  and fills them again. After the second pull the list returned with the first pair
  holds exactly one entry for each line the generator read since the first yield and
  nothing else: the record that opened the next frame (not a record of the frame the
  list was yielded for), then the records whose frame index is the advanced counter.
  So the list is never empty there, and it holds the same records as the group of the
  second pair.
\<close>

theorem yielded_group_is_refilled_in_place:
  assumes "iter_next pf st = Yield (img1, r1) st1"
    and "iter_next pf st1 = Yield (img2, r2) st2"
  shows "r1 = (if choose_midpoints (snd (snd st1)) then midpoints (snd (snd st1)) else Boxes_list)
       \<and> read_between (snd (snd st1)) (snd (snd st2)) \<noteq> []
       \<and> map Inr (heap (snd (snd st2)) r1)
           = map (entry_of pf r1) (read_between (snd (snd st1)) (snd (snd st2)))
       \<and> map Inr (heap (snd (snd st2)) r2)
           = map (entry_of pf r2) (read_between (snd (snd st1)) (snd (snd st2)))
       \<and> frame_index (hd (read_between (snd (snd st1)) (snd (snd st2))))
           \<notin> {None, Some (frame (snd (snd st1)) - 1)}
       \<and> list_all (\<lambda>box. frame_index box = Some (frame (snd (snd st1))))
           (tl (read_between (snd (snd st1)) (snd (snd st2))))"
proof -
  obtain c1 d1 s1 where st1: "st1 = (c1, d1, s1)" by (cases st1)
  obtain c2 d2 s2 where st2: "st2 = (c2, d2, s2)" by (cases st2)
  from iter_next_YieldD[OF assms(1)] st1 obtain w j n where
    first: "load_gt_next pf w = Yield r1 (d1, s1)" and c1: "c1 = Iter_loop j n"
    by auto
  from iter_next_YieldD[OF assms(2)] st1 st2 c1 have
    second: "load_gt_next pf (d1, s1) = Yield r2 (d2, s2)"
    by auto
  from first have "load_gt_next pf (fst w, snd w) = Yield r1 (d1, s1)" by simp
  from load_gt_next_YieldD[OF this] obtain sa la where fl: "for_lines pf sa la = Yield r1 s1"
    by blast
  from for_lines_ref[OF fl] second obtain box where
    susp: "pc s1 = Suspended box"
    and r1: "r1 = (if choose_midpoints s1 then Midpoints_list else Boxes_list)"
    and mp: "midpoints s1 = Midpoints_list"
    by (auto simp: load_gt_next_def)
  from for_lines_boundary[OF fl susp] obtain n0 where
    n0: "frame_index box = Some n0" "n0 \<noteq> frame s1 - 1" by blast
  from load_gt_next_resumeD[OF second susp] obtain b m sb where
    b: "box_of pf box = Inr b" and m: "midpoint_of pf box = Inr m"
    and hb: "heap sb Boxes_list = [b]" and hm: "heap sb Midpoints_list = [m]"
    and fr: "frame sb = frame s1"
    and run: "for_lines pf sb (fid s1) = Yield r2 s2" by blast
  define rest where
    "rest = map (split_on CHR '','')
              (take (length (fid s1) - length (fid s2) - length (pending (pc s2))) (fid s1))"
  have rb: "read_between s1 s2 = box # rest"
    by (simp add: read_between_def rest_def susp pending_def)
  from for_lines_appends[OF run] have
    bs: "map Inr (heap s2 Boxes_list) = map (box_of pf) (box # rest)"
    and ms: "map Inr (heap s2 Midpoints_list) = map (midpoint_of pf) (box # rest)"
    and fs: "list_all (\<lambda>box. frame_index box = Some (frame s1)) rest"
    unfolding rest_def by (simp_all add: hb hm b m fr)
  have ent: "map Inr (heap s2 r) = map (entry_of pf r) (box # rest)"
    if "r = Boxes_list \<or> r = Midpoints_list" for r
    using that bs ms by (auto simp: entry_of_def)
  from for_lines_ref[OF run] have r2: "r2 = Boxes_list \<or> r2 = Midpoints_list"
    by (auto split: if_splits)
  from r1 have r1': "r1 = Boxes_list \<or> r1 = Midpoints_list" by (auto split: if_splits)
  show ?thesis
    unfolding st1 st2 snd_conv rb
    using r1 mp ent[OF r1'] ent[OF r2] n0 fs by simp
qed

theorem yielded_group_is_refilled_in_place_witness:
  "length first_pulls = 2
   \<and> read_between (snd (snd (snd (first_pulls ! 0)))) (snd (snd (snd (first_pulls ! 1))))
       = [[''2'', ''1'', ''50'', ''60'', ''70'', ''80'' @ nl]]
   \<and> heap (snd (snd (snd (first_pulls ! 1)))) (snd (fst (first_pulls ! 0))) = [[85, 100]]"
proof -
  let ?s1 = "snd (snd (snd (first_pulls ! 0)))"
  let ?s2 = "snd (snd (snd (first_pulls ! 1)))"
  let ?r1 = "snd (fst (first_pulls ! 0))"
  from map_eq_2D[OF first_pulls_eval] have len: "length first_pulls = 2"
    and r1: "?r1 = Midpoints_list"
    by (simp_all add: case_prod_unfold)
  from map_eq_2D[OF first_pulls_positions] have
    pos: "pc ?s1 = Suspended [''2'', ''1'', ''50'', ''60'', ''70'', ''80'' @ nl]"
         "fid ?s1 = [''3,1,0,0,2,2'' @ nl]"
         "pc ?s2 = Suspended [''3'', ''1'', ''0'', ''0'', ''2'', ''2'' @ nl]"
         "fid ?s2 = []"
    by (simp_all add: case_prod_unfold)
  have rb: "read_between ?s1 ?s2 = [[''2'', ''1'', ''50'', ''60'', ''70'', ''80'' @ nl]]"
    by (simp only: read_between_def pos pending_def) simp
  let ?nxt = "iter_next int_float"
  let ?st = "(Iter_created, det_fs three_frames three_images, loader5 ''./data/test/MOT16-01'' True)"
  from pulls_2D[of ?nxt ?st] len have
    1: "?nxt ?st = Yield (fst (fst (first_pulls ! 0)), snd (fst (first_pulls ! 0)))
                     (snd (first_pulls ! 0))"
    and 2: "?nxt (snd (first_pulls ! 0)) =
              Yield (fst (fst (first_pulls ! 1)), snd (fst (first_pulls ! 1)))
                (snd (first_pulls ! 1))"
    by (simp_all add: first_pulls_def)
  have "map Inr (heap ?s2 ?r1) = map (entry_of int_float ?r1) (read_between ?s1 ?s2)"
    using yielded_group_is_refilled_in_place[OF 1 2] by blast
  also have "\<dots> = [Inr [85, 100]]"
    unfolding rb r1 by (simp add: entry_of_def midpoint_of_def eval_defs)
  finally have "heap ?s2 ?r1 = [[85, 100]]"
    by (cases "heap ?s2 ?r1"; cases "tl (heap ?s2 ?r1)") auto
  with len rb show ?thesis by blast
qed

text \<open>
  The claim C10 as stated fails. With midpoints selected, the list yielded for frame 1
  is the list \<open>self.midpoints\<close> refers to and holds \<open>[[25, 40]]\<close>; once the pair of
  frame 2 is delivered the same list holds \<open>[[85, 100]]\<close>, the midpoint of frame 2,
  and is not empty.
\<close>

theorem group_of_previous_frame_not_empty_counterexample:
  "map (\<lambda>(a, st). (snd a, heap (snd (snd st)) Midpoints_list, midpoints (snd (snd st))))
     first_pulls
   = [(Midpoints_list, [[25, 40]], Midpoints_list),
      (Midpoints_list, [[85, 100]], Midpoints_list)]"
proof -
  have "map (\<lambda>(a, st). (snd a, heap (snd (snd st)) Midpoints_list, midpoints (snd (snd st))))
          first_pulls
        = map (\<lambda>(a, bs, ms, m). (snd a, ms, m))
            (map (\<lambda>(a, st). (a, heap (snd (snd st)) Boxes_list, heap (snd (snd st)) Midpoints_list,
                    midpoints (snd (snd st)))) first_pulls)"
    by (simp add: case_prod_unfold)
  then show ?thesis by (simp only: first_pulls_eval) simp
qed

section \<open>The Metrics Update\<close>




end
